theory Spec2Isabelle
  imports Complex_Main "HOL-Library.Word"
begin

section \<open>Terms, literals and justifications\<close>

text \<open>
  The solver works on the ground terms of the external term manager. Terms are shared by
  identity there, so two pointers are equal exactly when the terms are structurally
  equal; the embedding uses a datatype with one constructor per operator the code
  inspects (\<open>m_util.str.is_concat\<close>, \<open>m_sk.is_accept\<close>, ...). \<open>Const\<close> stands
  for an uninterpreted constant of any sort.
\<close>

datatype lbool = l_false | l_undef | l_true

datatype expr =
    Const nat
  | Num int
  | Char nat
  | BTrue
  | BFalse
  | Add expr expr
  | Sub expr expr
  | Mul expr expr
  | Le expr expr
  | Ge expr expr
  | Eq expr expr
  | Ite expr expr expr
  | Empty
  | Str "nat list"
  | Unit expr
  | Concat expr expr
  | Length expr
  | Prefix expr expr
  | Suffix expr expr
  | Contains expr expr
  | Index expr expr
  | Index3 expr expr expr
  | LastIndex expr expr
  | Nth_i expr expr
  | At expr expr
  | Replace expr expr expr
  | Itos expr
  | Stoi expr
  | InRe expr expr
  | ReComplement expr
  | ReInter expr expr
  | ReUnion expr expr
  | Sk_accept expr expr expr expr
  | Sk_step expr expr expr expr expr expr
  | Sk_max_unfolding "32 word"
  | Sk_length_limit expr "32 word"
  | Sk_digit2int expr
  | Sk_is_digit expr
  | Sk_tail expr expr

text \<open>
  A literal of the SAT engine: an atom or its negation, and the three distinguished
  values the code compares against.
\<close>

datatype literal = true_literal | false_literal | null_literal | Pos expr | Neg expr

fun neg :: "literal \<Rightarrow> literal" where
  "neg true_literal = false_literal"
| "neg false_literal = true_literal"
| "neg null_literal = null_literal"
| "neg (Pos e) = Neg e"
| "neg (Neg e) = Pos e"

text \<open>
  A dependency is a set of assumptions (a literal, or a pair of terms known equal) built
  with join; its linearisation is the list of leaves, which is what the embedding keeps.
  \<open>nullptr\<close> is the empty list.
\<close>

datatype assumption = ALit literal | AEq expr expr

type_synonym dependency = "assumption list"

definition mk_join :: "dependency \<Rightarrow> dependency \<Rightarrow> dependency" where
  "mk_join d1 d2 = d1 @ d2"

definition linearize_lits :: "dependency \<Rightarrow> literal list" where
  "linearize_lits d = concat (map (\<lambda>a. case a of ALit l \<Rightarrow> [l] | AEq _ _ \<Rightarrow> []) d)"

definition linearize_eqs :: "dependency \<Rightarrow> (expr \<times> expr) list" where
  "linearize_eqs d = concat (map (\<lambda>a. case a of ALit _ \<Rightarrow> [] | AEq x y \<Rightarrow> [(x, y)]) d)"

section \<open>The state of the theory solver\<close>

text \<open>
  The automaton class is an external collaborator; the solver only asks it the
  questions below. A move carries its destination and its label, the label being what
  \<open>mv.t()->accept(nth)\<close> builds from the term for the current position.
\<close>

record move =
  dst :: nat
  t_accept :: "expr \<Rightarrow> expr"

record eautomaton =
  init :: nat
  is_final_state :: "nat \<Rightarrow> bool"
  is_sink_state :: "nat \<Rightarrow> bool"
  get_moves_from :: "nat \<Rightarrow> move list"
  get_epsilon_closure :: "nat \<Rightarrow> nat list"
  is_empty :: bool

record nc =
  contains :: expr
  len_gt :: literal
  nc_deps :: dependency

record s_in_re =
  m_lit :: literal
  m_s :: expr
  m_re :: expr
  m_aut :: eautomaton
  m_active :: bool

record stats =
  m_check_length_coherence :: nat
  m_branch_variable :: nat
  m_solve_nqs :: nat
  m_solve_eqs :: nat
  m_branch_nqs :: nat
  m_add_axiom :: nat
  m_extensionality :: nat
  m_fixed_length :: nat
  m_int_string :: nat
  m_propagate_automata :: nat
  m_propagate_contains :: nat

text \<open>
  The solution map: the slot of a term (the array is indexed by the term's id, and ids
  are in bijection with terms) holds its replacement and the justification; the trail
  records every write so that a pop can undo it.
\<close>

datatype map_update = INS | DEL

record solution_map =
  m_map :: "expr \<rightharpoonup> (expr \<times> dependency)"
  m_cache :: "expr \<rightharpoonup> (expr \<times> dependency)"
  m_updates :: "(map_update \<times> expr \<times> expr \<times> dependency) list"
  m_limit :: "nat list"

text \<open>
  The members of the solver class that the functions below read or write. \<open>ctx\<close> is
  the state of the SAT engine, of a type the solver never looks into. Counters are
  unsigned in the source; no claim depends on their wrapping, so they are naturals.
  \<open>m_trace\<close> collects the tags the final check reports through \<open>TRACEFIN\<close>.
\<close>

record 'c theory_seq =
  ctx :: 'c
  m_has_seq :: bool
  m_split_w_len :: bool
  m_new_propagation :: bool
  m_new_solution :: bool
  m_eqs :: "(expr list \<times> expr list \<times> dependency) list"
  m_ncs :: "nc list"
  m_automata :: "eautomaton option list"
  m_re2aut :: "expr \<rightharpoonup> eautomaton option"
  m_res :: "expr list"
  m_s_in_re :: "s_in_re list"
  m_has_length :: "expr set"
  m_length :: "expr list"
  m_axioms :: "expr list"
  m_axiom_set :: "expr set"
  m_max_unfolding_depth :: "32 word"
  m_max_unfolding_lit :: literal
  m_length_limit_map :: "expr \<rightharpoonup> 32 word"
  m_length_limit :: "expr list"
  m_is_digit :: "expr set"
  m_rep :: solution_map
  m_expand_todo :: "expr list"
  m_stats :: stats
  m_trace :: "string list"

section \<open>The final-check cascade\<close>

text \<open>
  \<open>final_check_eh\<close> calls one rule after the other; each rule works on the whole
  solver state and reports whether it made progress. The bodies of the rules are not
  what the statements about the cascade depend on, so a rule is any state transformer
  with a flag, and the cascade is modelled for every choice of the rules.
\<close>

datatype final_check_status = FC_DONE | FC_CONTINUE | FC_GIVEUP

type_synonym 'c rule = "'c theory_seq \<Rightarrow> bool \<times> 'c theory_seq"

record 'c rules =
  simplify_and_solve_eqs :: "'c rule"
  check_lts :: "'c rule"
  solve_nqs :: "nat \<Rightarrow> 'c rule"
  check_contains_rule :: "'c rule"
  fixed_length :: "bool \<Rightarrow> 'c rule"
  len_based_split :: "'c rule"
  check_int_string :: "'c rule"
  reduce_length_eq :: "'c rule"
  branch_unit_variable :: "'c rule"
  branch_binary_variable :: "'c rule"
  branch_variable :: "'c rule"
  check_length_coherence :: "'c rule"
  check_extensionality :: "'c rule"
  branch_nqs :: "'c rule"

definition TRACEFIN :: "string \<Rightarrow> 'c theory_seq \<Rightarrow> 'c theory_seq" where
  "TRACEFIN s st = st\<lparr>m_trace := m_trace st @ [s]\<rparr>"

definition upd_stats :: "(stats \<Rightarrow> stats) \<Rightarrow> 'c theory_seq \<Rightarrow> 'c theory_seq" where
  "upd_stats f st = st\<lparr>m_stats := f (m_stats st)\<rparr>"

text \<open>
  One step of the cascade, \<open>if (rule()) { on_fire; return FC_CONTINUE; }\<close>, followed by
  the rest \<open>k\<close> of the function.
\<close>

definition try_rule ::
  "'c rule \<Rightarrow> ('c theory_seq \<Rightarrow> 'c theory_seq) \<Rightarrow>
   ('c theory_seq \<Rightarrow> final_check_status \<times> 'c theory_seq) \<Rightarrow>
   'c theory_seq \<Rightarrow> final_check_status \<times> 'c theory_seq" where
  "try_rule r on_fire k st =
     (case r st of (fired, st1) \<Rightarrow> if fired then (FC_CONTINUE, on_fire st1) else k st1)"

text \<open>
  \<open>is_solved\<close>: no equation is left, every automaton of the table is there (a regular
  expression that did not compile leaves a null entry), and no negated containment is
  left.
\<close>

definition is_solved :: "'c theory_seq \<Rightarrow> bool" where
  "is_solved st =
     (if m_eqs st \<noteq> [] then False
      else if list_ex (\<lambda>a. a = None) (m_automata st) then False
      else if m_ncs st \<noteq> [] then False
      else True)"

definition gated_len_based_split :: "'c rules \<Rightarrow> 'c rule" where
  "gated_len_based_split R st = (if m_split_w_len st then len_based_split R st else (False, st))"

definition not_check_extensionality :: "'c rules \<Rightarrow> 'c rule" where
  "not_check_extensionality R st = (case check_extensionality R st of (b, st1) \<Rightarrow> (\<not> b, st1))"

definition finish :: "'c theory_seq \<Rightarrow> final_check_status \<times> 'c theory_seq" where
  "finish st =
     (if is_solved st then (FC_DONE, TRACEFIN ''is_solved'' st)
      else (FC_GIVEUP, TRACEFIN ''give_up'' st))"

definition final_check_eh :: "'c rules \<Rightarrow> 'c theory_seq \<Rightarrow> final_check_status \<times> 'c theory_seq" where
  "final_check_eh R st =
     (if \<not> m_has_seq st then (FC_DONE, st)
      else
       (try_rule (simplify_and_solve_eqs R)
          (TRACEFIN ''solve_eqs'' \<circ> upd_stats (\<lambda>s. s\<lparr>m_solve_eqs := m_solve_eqs s + 1\<rparr>))
       (try_rule (check_lts R)
          (TRACEFIN ''check_lts'')
       (try_rule (solve_nqs R 0)
          (TRACEFIN ''solve_nqs'' \<circ> upd_stats (\<lambda>s. s\<lparr>m_solve_nqs := m_solve_nqs s + 1\<rparr>))
       (try_rule (check_contains_rule R)
          (TRACEFIN ''propagate_contains'' \<circ> upd_stats (\<lambda>s. s\<lparr>m_propagate_contains := m_propagate_contains s + 1\<rparr>))
       (try_rule (fixed_length R True)
          (TRACEFIN ''zero_length'' \<circ> upd_stats (\<lambda>s. s\<lparr>m_fixed_length := m_fixed_length s + 1\<rparr>))
       (try_rule (gated_len_based_split R)
          (TRACEFIN ''split_based_on_length'' \<circ> upd_stats (\<lambda>s. s\<lparr>m_branch_variable := m_branch_variable s + 1\<rparr>))
       (try_rule (fixed_length R False)
          (TRACEFIN ''fixed_length'' \<circ> upd_stats (\<lambda>s. s\<lparr>m_fixed_length := m_fixed_length s + 1\<rparr>))
       (try_rule (check_int_string R)
          (TRACEFIN ''int_string'' \<circ> upd_stats (\<lambda>s. s\<lparr>m_int_string := m_int_string s + 1\<rparr>))
       (try_rule (reduce_length_eq R)
          (TRACEFIN ''reduce_length'' \<circ> upd_stats (\<lambda>s. s\<lparr>m_branch_variable := m_branch_variable s + 1\<rparr>))
       (try_rule (branch_unit_variable R)
          (TRACEFIN ''branch_unit_variable'' \<circ> upd_stats (\<lambda>s. s\<lparr>m_branch_variable := m_branch_variable s + 1\<rparr>))
       (try_rule (branch_binary_variable R)
          (TRACEFIN ''branch_binary_variable'' \<circ> upd_stats (\<lambda>s. s\<lparr>m_branch_variable := m_branch_variable s + 1\<rparr>))
       (try_rule (branch_variable R)
          (TRACEFIN ''branch_variable'' \<circ> upd_stats (\<lambda>s. s\<lparr>m_branch_variable := m_branch_variable s + 1\<rparr>))
       (try_rule (check_length_coherence R)
          (TRACEFIN ''check_length_coherence'' \<circ> upd_stats (\<lambda>s. s\<lparr>m_check_length_coherence := m_check_length_coherence s + 1\<rparr>))
       (try_rule (not_check_extensionality R)
          (TRACEFIN ''extensionality'' \<circ> upd_stats (\<lambda>s. s\<lparr>m_extensionality := m_extensionality s + 1\<rparr>))
       (try_rule (branch_nqs R)
          (TRACEFIN ''branch_ne'' \<circ> upd_stats (\<lambda>s. s\<lparr>m_branch_nqs := m_branch_nqs s + 1\<rparr>))
        finish)))))))))))))))
       (st\<lparr>m_new_propagation := False\<rparr>))"

text \<open>
  The cascade as a list: the rules in the order they are tried. \<open>first_firing\<close> runs
  them in that order on the state each one leaves behind, and stops at the first that
  reports progress, or returns the state after all of them.
\<close>

datatype rule_name =
    Simplify_and_solve_eqs | Check_lts | Solve_nqs | Check_contains | Fixed_length_zero
  | Len_based_split | Fixed_length | Check_int_string | Reduce_length_eq
  | Branch_unit_variable | Branch_binary_variable | Branch_variable
  | Check_length_coherence | Check_extensionality | Branch_nqs

fun rule_of :: "'c rules \<Rightarrow> rule_name \<Rightarrow> 'c rule" where
  "rule_of R Simplify_and_solve_eqs = simplify_and_solve_eqs R"
| "rule_of R Check_lts = check_lts R"
| "rule_of R Solve_nqs = solve_nqs R 0"
| "rule_of R Check_contains = check_contains_rule R"
| "rule_of R Fixed_length_zero = fixed_length R True"
| "rule_of R Len_based_split = gated_len_based_split R"
| "rule_of R Fixed_length = fixed_length R False"
| "rule_of R Check_int_string = check_int_string R"
| "rule_of R Reduce_length_eq = reduce_length_eq R"
| "rule_of R Branch_unit_variable = branch_unit_variable R"
| "rule_of R Branch_binary_variable = branch_binary_variable R"
| "rule_of R Branch_variable = branch_variable R"
| "rule_of R Check_length_coherence = check_length_coherence R"
| "rule_of R Check_extensionality = not_check_extensionality R"
| "rule_of R Branch_nqs = branch_nqs R"

fun first_firing ::
  "'c rules \<Rightarrow> rule_name list \<Rightarrow> 'c theory_seq \<Rightarrow> (rule_name \<times> 'c theory_seq) + 'c theory_seq" where
  "first_firing R [] st = Inr st"
| "first_firing R (n # ns) st =
     (case rule_of R n st of (fired, st1) \<Rightarrow> if fired then Inl (n, st1) else first_firing R ns st1)"

text \<open>The order of the specification's list (rules 1 to 14).\<close>

definition spec_order :: "rule_name list" where
  "spec_order =
     [Simplify_and_solve_eqs, Check_lts, Solve_nqs, Check_contains, Fixed_length_zero,
      Fixed_length, Len_based_split, Check_int_string, Reduce_length_eq,
      Branch_unit_variable, Branch_binary_variable, Branch_variable,
      Check_length_coherence, Check_extensionality, Branch_nqs]"

text \<open>The order in which the source calls them.\<close>

definition code_order :: "rule_name list" where
  "code_order =
     [Simplify_and_solve_eqs, Check_lts, Solve_nqs, Check_contains, Fixed_length_zero,
      Len_based_split, Fixed_length, Check_int_string, Reduce_length_eq,
      Branch_unit_variable, Branch_binary_variable, Branch_variable,
      Check_length_coherence, Check_extensionality, Branch_nqs]"

text \<open>
  What a final-check round that follows an order reports: \<open>FC_CONTINUE\<close> with the name
  of the first rule of the order that fired, or the answer of \<open>is_solved\<close> on the state
  the rules left.
\<close>

definition cascade_status ::
  "'c rules \<Rightarrow> rule_name list \<Rightarrow> 'c theory_seq \<Rightarrow> final_check_status \<times> rule_name option" where
  "cascade_status R order st =
     (if \<not> m_has_seq st then (FC_DONE, None)
      else case first_firing R order (st\<lparr>m_new_propagation := False\<rparr>) of
             Inl (n, st1) \<Rightarrow> (FC_CONTINUE, Some n)
           | Inr st1 \<Rightarrow> (if is_solved st1 then FC_DONE else FC_GIVEUP, None))"

text \<open>The tag a round reports last names the rule that fired.\<close>

fun rule_tag :: "rule_name \<Rightarrow> string" where
  "rule_tag Simplify_and_solve_eqs = ''solve_eqs''"
| "rule_tag Check_lts = ''check_lts''"
| "rule_tag Solve_nqs = ''solve_nqs''"
| "rule_tag Check_contains = ''propagate_contains''"
| "rule_tag Fixed_length_zero = ''zero_length''"
| "rule_tag Len_based_split = ''split_based_on_length''"
| "rule_tag Fixed_length = ''fixed_length''"
| "rule_tag Check_int_string = ''int_string''"
| "rule_tag Reduce_length_eq = ''reduce_length''"
| "rule_tag Branch_unit_variable = ''branch_unit_variable''"
| "rule_tag Branch_binary_variable = ''branch_binary_variable''"
| "rule_tag Branch_variable = ''branch_variable''"
| "rule_tag Check_length_coherence = ''check_length_coherence''"
| "rule_tag Check_extensionality = ''extensionality''"
| "rule_tag Branch_nqs = ''branch_ne''"

fun rule_stat :: "rule_name \<Rightarrow> stats \<Rightarrow> stats" where
  "rule_stat Simplify_and_solve_eqs s = s\<lparr>m_solve_eqs := m_solve_eqs s + 1\<rparr>"
| "rule_stat Check_lts s = s"
| "rule_stat Solve_nqs s = s\<lparr>m_solve_nqs := m_solve_nqs s + 1\<rparr>"
| "rule_stat Check_contains s = s\<lparr>m_propagate_contains := m_propagate_contains s + 1\<rparr>"
| "rule_stat Fixed_length_zero s = s\<lparr>m_fixed_length := m_fixed_length s + 1\<rparr>"
| "rule_stat Len_based_split s = s\<lparr>m_branch_variable := m_branch_variable s + 1\<rparr>"
| "rule_stat Fixed_length s = s\<lparr>m_fixed_length := m_fixed_length s + 1\<rparr>"
| "rule_stat Check_int_string s = s\<lparr>m_int_string := m_int_string s + 1\<rparr>"
| "rule_stat Reduce_length_eq s = s\<lparr>m_branch_variable := m_branch_variable s + 1\<rparr>"
| "rule_stat Branch_unit_variable s = s\<lparr>m_branch_variable := m_branch_variable s + 1\<rparr>"
| "rule_stat Branch_binary_variable s = s\<lparr>m_branch_variable := m_branch_variable s + 1\<rparr>"
| "rule_stat Branch_variable s = s\<lparr>m_branch_variable := m_branch_variable s + 1\<rparr>"
| "rule_stat Check_length_coherence s = s\<lparr>m_check_length_coherence := m_check_length_coherence s + 1\<rparr>"
| "rule_stat Check_extensionality s = s\<lparr>m_extensionality := m_extensionality s + 1\<rparr>"
| "rule_stat Branch_nqs s = s\<lparr>m_branch_nqs := m_branch_nqs s + 1\<rparr>"

text \<open>
  A whole round along an order: the state as well as the status. \<open>FC_CONTINUE\<close> comes
  with the counter and the tag of the rule that fired.
\<close>

definition cascade_round ::
  "'c rules \<Rightarrow> rule_name list \<Rightarrow> 'c theory_seq \<Rightarrow> final_check_status \<times> 'c theory_seq" where
  "cascade_round R order st =
     (if \<not> m_has_seq st then (FC_DONE, st)
      else case first_firing R order (st\<lparr>m_new_propagation := False\<rparr>) of
             Inl (n, st1) \<Rightarrow> (FC_CONTINUE, TRACEFIN (rule_tag n) (upd_stats (rule_stat n) st1))
           | Inr st1 \<Rightarrow> finish st1)"

text \<open>
  The state the constructor of the solver builds: empty containers, unfolding depth 1,
  no unfolding literal yet.
\<close>

definition empty_stats :: stats where
  "empty_stats = \<lparr>m_check_length_coherence = 0, m_branch_variable = 0, m_solve_nqs = 0,
     m_solve_eqs = 0, m_branch_nqs = 0, m_add_axiom = 0, m_extensionality = 0,
     m_fixed_length = 0, m_int_string = 0, m_propagate_automata = 0,
     m_propagate_contains = 0\<rparr>"

definition empty_solution_map :: solution_map where
  "empty_solution_map = \<lparr>m_map = Map.empty, m_cache = Map.empty, m_updates = [], m_limit = []\<rparr>"

definition theory_seq_init :: "'c \<Rightarrow> bool \<Rightarrow> bool \<Rightarrow> 'c theory_seq" where
  "theory_seq_init c has_seq split_w_len =
     \<lparr>ctx = c, m_has_seq = has_seq, m_split_w_len = split_w_len, m_new_propagation = False,
      m_new_solution = False, m_eqs = [], m_ncs = [], m_automata = [], m_re2aut = Map.empty, m_res = [],
      m_s_in_re = [], m_has_length = {}, m_length = [], m_axioms = [], m_axiom_set = {},
      m_max_unfolding_depth = 1, m_max_unfolding_lit = null_literal,
      m_length_limit_map = Map.empty, m_length_limit = [], m_is_digit = {},
      m_rep = empty_solution_map, m_expand_todo = [], m_stats = empty_stats, m_trace = []\<rparr>"

text \<open>
  Rules that record their own call in the engine state (here a list of rule names) and
  fire as a given predicate says; they make the order of the calls visible.
\<close>

definition logging_rule :: "(rule_name \<Rightarrow> bool) \<Rightarrow> rule_name \<Rightarrow> (rule_name list) rule" where
  "logging_rule fires n st = (fires n, st\<lparr>ctx := ctx st @ [n]\<rparr>)"

definition logging_rules :: "(rule_name \<Rightarrow> bool) \<Rightarrow> (rule_name list) rules" where
  "logging_rules fires =
     \<lparr>simplify_and_solve_eqs = logging_rule fires Simplify_and_solve_eqs,
      check_lts = logging_rule fires Check_lts,
      solve_nqs = (\<lambda>_. logging_rule fires Solve_nqs),
      check_contains_rule = logging_rule fires Check_contains,
      fixed_length = (\<lambda>is_zero. logging_rule fires (if is_zero then Fixed_length_zero else Fixed_length)),
      len_based_split = logging_rule fires Len_based_split,
      check_int_string = logging_rule fires Check_int_string,
      reduce_length_eq = logging_rule fires Reduce_length_eq,
      branch_unit_variable = logging_rule fires Branch_unit_variable,
      branch_binary_variable = logging_rule fires Branch_binary_variable,
      branch_variable = logging_rule fires Branch_variable,
      check_length_coherence = logging_rule fires Check_length_coherence,
      check_extensionality = (\<lambda>st. (\<not> fires Check_extensionality, st\<lparr>ctx := ctx st @ [Check_extensionality]\<rparr>)),
      branch_nqs = logging_rule fires Branch_nqs\<rparr>"

subsection \<open>The order of the cascade\<close>

definition chain ::
  "'c rules \<Rightarrow> rule_name list \<Rightarrow> ('c theory_seq \<Rightarrow> final_check_status \<times> 'c theory_seq) \<Rightarrow>
   'c theory_seq \<Rightarrow> final_check_status \<times> 'c theory_seq" where
  "chain R ns k st =
     (case first_firing R ns st of
        Inl (m, st1) \<Rightarrow> (FC_CONTINUE, TRACEFIN (rule_tag m) (upd_stats (rule_stat m) st1))
      | Inr st1 \<Rightarrow> k st1)"

lemma chain_Nil: "chain R [] k = k"
  by (simp add: chain_def fun_eq_iff)

lemma chain_Cons:
  "chain R (n # ns) k =
     try_rule (rule_of R n) (TRACEFIN (rule_tag n) \<circ> upd_stats (rule_stat n)) (chain R ns k)"
  by (simp add: chain_def try_rule_def fun_eq_iff split: prod.split)

lemma upd_stats_id: "upd_stats (\<lambda>s. s) = (\<lambda>st. st)"
  by (simp add: upd_stats_def fun_eq_iff)

lemma rule_stat_eta: "rule_stat n = (\<lambda>s. rule_stat n s)"
  by simp

lemma final_check_eh_chain:
  "final_check_eh R st =
     (if \<not> m_has_seq st then (FC_DONE, st)
      else chain R code_order finish (st\<lparr>m_new_propagation := False\<rparr>))"
  unfolding code_order_def chain_Cons chain_Nil final_check_eh_def rule_of.simps rule_tag.simps
  apply (subst (1 2 3 4 5 6 7 8 9 10 11 12 13 14 15) rule_stat_eta)
  unfolding rule_stat.simps
  by (simp add: upd_stats_id comp_def)

text \<open>
  C1, as the specification lists the rules (the general fixed-length rule right after
  the zero-length one, before the length-based split): it fails. With the split enabled
  and both the split and the general fixed-length rule able to fire, the source calls
  the split after the zero-length rule and returns; the general fixed-length rule is
  never called in that round, while the listed order would have fired it.
\<close>

theorem final_check_eh_not_spec_order:
  "ctx (snd (final_check_eh (logging_rules (\<lambda>n. n = Fixed_length \<or> n = Len_based_split))
               (theory_seq_init [] True True)))
     = [Simplify_and_solve_eqs, Check_lts, Solve_nqs, Check_contains, Fixed_length_zero, Len_based_split]
   \<and> m_trace (snd (final_check_eh (logging_rules (\<lambda>n. n = Fixed_length \<or> n = Len_based_split))
               (theory_seq_init [] True True))) = [''split_based_on_length'']
   \<and> ctx (snd (cascade_round (logging_rules (\<lambda>n. n = Fixed_length \<or> n = Len_based_split)) spec_order
               (theory_seq_init [] True True)))
     = [Simplify_and_solve_eqs, Check_lts, Solve_nqs, Check_contains, Fixed_length_zero, Fixed_length]
   \<and> final_check_eh (logging_rules (\<lambda>n. n = Fixed_length \<or> n = Len_based_split))
               (theory_seq_init [] True True)
     \<noteq> cascade_round (logging_rules (\<lambda>n. n = Fixed_length \<or> n = Len_based_split)) spec_order
               (theory_seq_init [] True True)"
  by (simp add: final_check_eh_chain chain_def cascade_round_def code_order_def spec_order_def
      logging_rules_def logging_rule_def theory_seq_init_def gated_len_based_split_def
      not_check_extensionality_def TRACEFIN_def upd_stats_def empty_stats_def)

text \<open>
  C1, amended: a final-check round is a round along the order of the source, in which
  the length-based split (when the configuration enables it) stands between the
  zero-length rule and the general fixed-length rule. The round returns \<open>FC_CONTINUE\<close>
  at the first rule of that order that fires, each rule running on the state the
  earlier ones left, and only when none fires does it go on to \<open>is_solved\<close>. A solver
  that has seen no sequence term answers \<open>FC_DONE\<close> without running any rule.
\<close>

theorem final_check_eh_code_order:
  "final_check_eh R st = cascade_round R code_order st"
  by (simp add: final_check_eh_chain cascade_round_def chain_def)

theorem final_check_eh_code_order_witness:
  "final_check_eh (logging_rules (\<lambda>n. n = Fixed_length \<or> n = Len_based_split)) (theory_seq_init [] True True)
   = (FC_CONTINUE,
      (theory_seq_init
         [Simplify_and_solve_eqs, Check_lts, Solve_nqs, Check_contains, Fixed_length_zero, Len_based_split]
         True True)
        \<lparr>m_stats := empty_stats\<lparr>m_branch_variable := 1\<rparr>, m_trace := [''split_based_on_length'']\<rparr>)"
  using final_check_eh_code_order [of "logging_rules (\<lambda>n. n = Fixed_length \<or> n = Len_based_split)"
      "theory_seq_init [] True True"]
  by (simp add: cascade_round_def code_order_def
      logging_rules_def logging_rule_def theory_seq_init_def gated_len_based_split_def
      not_check_extensionality_def TRACEFIN_def upd_stats_def empty_stats_def)

subsection \<open>The end of the cascade\<close>

lemma is_solved_iff:
  "is_solved st \<longleftrightarrow>
      m_eqs st = [] \<and> (\<forall>a \<in> set (m_automata st). a \<noteq> None) \<and> m_ncs st = []"
  unfolding is_solved_def list_ex_iff
  apply (simp del: not_None_eq)
  apply (intro impI ballI)
  apply (erule contrapos_nn)
  apply simp
  done

text \<open>
  C6: in a solver that has sequence terms, when every rule of the cascade has run and
  none reported progress, the round answers \<open>FC_DONE\<close> exactly when, in the state the
  rules left, the equation store is empty, every entry of the automaton table is a
  compiled automaton, and no negated containment is left; otherwise it answers
  \<open>FC_GIVEUP\<close>.
\<close>

theorem final_check_eh_done_iff_solved:
  assumes "m_has_seq st"
    and "first_firing R code_order (st\<lparr>m_new_propagation := False\<rparr>) = Inr st1"
  shows "(fst (final_check_eh R st) = FC_DONE \<longleftrightarrow>
            m_eqs st1 = [] \<and> (\<forall>a \<in> set (m_automata st1). a \<noteq> None) \<and> m_ncs st1 = [])
         \<and> (\<not> (m_eqs st1 = [] \<and> (\<forall>a \<in> set (m_automata st1). a \<noteq> None) \<and> m_ncs st1 = [])
              \<longrightarrow> fst (final_check_eh R st) = FC_GIVEUP)"
proof -
  have e: "fst (final_check_eh R st) = (if is_solved st1 then FC_DONE else FC_GIVEUP)"
    using assms by (simp add: final_check_eh_chain chain_def finish_def)
  show ?thesis
    unfolding e is_solved_iff [symmetric] by simp
qed

theorem final_check_eh_done_iff_solved_witness:
  "fst (final_check_eh (logging_rules (\<lambda>n. False)) (theory_seq_init [] True False)) = FC_DONE
   \<and> fst (final_check_eh (logging_rules (\<lambda>n. False))
        ((theory_seq_init [] True False)\<lparr>m_automata := [None]\<rparr>)) = FC_GIVEUP"
proof -
  let ?R = "logging_rules (\<lambda>n. False)"
  let ?log = "[Simplify_and_solve_eqs, Check_lts, Solve_nqs, Check_contains, Fixed_length_zero,
      Fixed_length, Check_int_string, Reduce_length_eq, Branch_unit_variable,
      Branch_binary_variable, Branch_variable, Check_length_coherence, Check_extensionality,
      Branch_nqs]"
  have h1: "m_has_seq (theory_seq_init ([]::rule_name list) True False)"
    by (simp add: theory_seq_init_def)
  have h2: "first_firing ?R code_order ((theory_seq_init [] True False)\<lparr>m_new_propagation := False\<rparr>)
            = Inr (theory_seq_init ?log True False)"
    by (simp add: code_order_def logging_rules_def logging_rule_def theory_seq_init_def
        gated_len_based_split_def not_check_extensionality_def)
  have h3: "m_has_seq ((theory_seq_init ([]::rule_name list) True False)\<lparr>m_automata := [None]\<rparr>)"
    by (simp add: theory_seq_init_def)
  have h4: "first_firing ?R code_order
              ((theory_seq_init [] True False)\<lparr>m_automata := [None], m_new_propagation := False\<rparr>)
            = Inr ((theory_seq_init ?log True False)\<lparr>m_automata := [None]\<rparr>)"
    by (simp add: code_order_def logging_rules_def logging_rule_def theory_seq_init_def
        gated_len_based_split_def not_check_extensionality_def)
  show ?thesis
    using final_check_eh_done_iff_solved [OF h1 h2] final_check_eh_done_iff_solved [OF h3 h4]
    by (simp add: theory_seq_init_def)
qed

section \<open>External collaborators and the propagation interface\<close>

text \<open>
  The SAT engine, the arithmetic solver, the rewriter, the automaton builder and the axiom
  module are outside the solver. Their operations are parameters of the model: every
  statement below holds for every implementation of them. The engine's state has the
  abstract type \<open>'c\<close>. The axiom module reaches the solver only through the callback
  \<open>add_axiom\<close> the constructor installs, so an operation of the module is the list of
  clauses it hands to that callback (with the term or literal it returns, if any).
  \<open>mk_literal\<close> internalises an atom and returns the engine's literal for it; the
  embedding writes \<open>Pos e\<close> for that literal.
\<close>

record 'c externals =
  get_assignment :: "'c \<Rightarrow> literal \<Rightarrow> lbool"
  mark_as_relevant :: "literal \<Rightarrow> 'c \<Rightarrow> 'c"
  force_phase :: "literal \<Rightarrow> 'c \<Rightarrow> 'c"
  inconsistent :: "'c \<Rightarrow> bool"
  get_scope_level :: "'c \<Rightarrow> nat"
  ctx_assign :: "literal \<Rightarrow> literal list \<Rightarrow> (expr \<times> expr) list \<Rightarrow> 'c \<Rightarrow> 'c"
  ctx_set_conflict :: "literal list \<Rightarrow> (expr \<times> expr) list \<Rightarrow> 'c \<Rightarrow> 'c"
  mk_th_axiom :: "literal list \<Rightarrow> 'c \<Rightarrow> 'c"
  get_random_value :: "'c \<Rightarrow> 32 word \<times> 'c"
  ensure_enode :: "expr \<Rightarrow> 'c \<Rightarrow> 'c"
  eqc :: "'c \<Rightarrow> expr \<Rightarrow> expr list"
  get_root :: "'c \<Rightarrow> expr \<Rightarrow> expr"
  get_value :: "'c \<Rightarrow> expr \<Rightarrow> rat option"
  m_rewrite :: "expr \<Rightarrow> expr"
  get_concat_units :: "expr \<Rightarrow> expr list"
  ctx_rewrite :: "expr \<Rightarrow> expr"
  m_mk_aut :: "expr \<Rightarrow> eautomaton option"
  unroll_not_contains :: "expr \<Rightarrow> literal list list"
  ax_add_length_limit :: "expr \<Rightarrow> 32 word \<Rightarrow> expr \<times> literal list list"
  ax_is_digit :: "expr \<Rightarrow> literal \<times> literal list list"

text \<open>
  A failed \<open>VERIFY\<close> aborts; \<open>default_exception\<close> carries the message the code streams
  together, pieces of text and printed terms.
\<close>

datatype msg_part = Text string | Term expr

datatype error = Verify_failed | Default_exception "msg_part list"

definition mk_literal :: "expr \<Rightarrow> literal" where
  "mk_literal e = Pos e"

definition mk_len :: "'c externals \<Rightarrow> expr \<Rightarrow> expr" where
  "mk_len X s = m_rewrite X (Length s)"

definition mk_sub :: "'c externals \<Rightarrow> expr \<Rightarrow> expr \<Rightarrow> expr" where
  "mk_sub X a b = m_rewrite X (Sub a b)"

definition set_conflict ::
  "'c externals \<Rightarrow> dependency \<Rightarrow> literal list \<Rightarrow> 'c theory_seq \<Rightarrow> 'c theory_seq" where
  "set_conflict X dep lits st =
     st\<lparr>m_new_propagation := True,
        ctx := ctx_set_conflict X (lits @ linearize_lits dep) (linearize_eqs dep) (ctx st)\<rparr>"

definition propagate_lit ::
  "'c externals \<Rightarrow> dependency \<Rightarrow> literal list \<Rightarrow> literal \<Rightarrow> 'c theory_seq \<Rightarrow> 'c theory_seq" where
  "propagate_lit X dep lits lit st =
     (if lit = true_literal then st
      else if lit = false_literal then set_conflict X dep lits st
      else st\<lparr>m_new_propagation := True,
              ctx := ctx_assign X lit (lits @ linearize_lits dep) (linearize_eqs dep)
                       (mark_as_relevant X lit (ctx st))\<rparr>)"

text \<open>
  \<open>add_axiom(l1, ..., l5)\<close>: the arguments not given are \<open>null_literal\<close>; the list holds
  the five arguments in order.
\<close>

definition add_axiom :: "'c externals \<Rightarrow> literal list \<Rightarrow> 'c theory_seq \<Rightarrow> 'c theory_seq" where
  "add_axiom X ls st =
     (if true_literal \<in> set ls then st
      else let lits = filter (\<lambda>l. l \<noteq> null_literal \<and> l \<noteq> false_literal) ls in
        st\<lparr>m_new_propagation := True,
           m_stats := (m_stats st)\<lparr>m_add_axiom := m_add_axiom (m_stats st) + 1\<rparr>,
           ctx := mk_th_axiom X lits (fold (mark_as_relevant X) lits (ctx st))\<rparr>)"

section \<open>Length terms and negated containment\<close>

definition has_length :: "'c theory_seq \<Rightarrow> expr \<Rightarrow> bool" where
  "has_length st e = (e \<in> m_has_length st)"

definition enque_axiom :: "expr \<Rightarrow> 'c theory_seq \<Rightarrow> 'c theory_seq" where
  "enque_axiom e st =
     (if e \<in> m_axiom_set st then st
      else st\<lparr>m_axioms := m_axioms st @ [e], m_axiom_set := insert e (m_axiom_set st)\<rparr>)"

definition add_length :: "expr \<Rightarrow> expr \<Rightarrow> 'c theory_seq \<Rightarrow> 'c theory_seq" where
  "add_length e l st =
     st\<lparr>m_length := m_length st @ [l], m_has_length := insert e (m_has_length st)\<rparr>"

text \<open>
  \<open>add_length_to_eqc\<close> walks the ring of the equivalence class of \<open>e\<close>; the body of the
  loop does not touch the engine, so the members are read once.
\<close>

fun add_length_to_eqc_loop :: "expr list \<Rightarrow> bool \<Rightarrow> 'c theory_seq \<Rightarrow> bool \<times> 'c theory_seq" where
  "add_length_to_eqc_loop [] change st = (change, st)"
| "add_length_to_eqc_loop (o1 # os) change st =
     (if \<not> has_length st o1
      then add_length_to_eqc_loop os True (add_length o1 (Length o1) (enque_axiom (Length o1) st))
      else add_length_to_eqc_loop os change st)"

definition add_length_to_eqc :: "'c externals \<Rightarrow> expr \<Rightarrow> 'c theory_seq \<Rightarrow> bool \<times> 'c theory_seq" where
  "add_length_to_eqc X e st =
     (let st1 = st\<lparr>ctx := ensure_enode X e (ctx st)\<rparr>
      in add_length_to_eqc_loop (eqc X (ctx st1) e) False st1)"

text \<open>
  \<open>solve_nc\<close>. The vector's index operator asserts its bound and \<open>VERIFY\<close> aborts when
  the stored term is not a containment; both are the error \<open>Verify_failed\<close>.
\<close>

definition solve_nc :: "'c externals \<Rightarrow> nat \<Rightarrow> 'c theory_seq \<Rightarrow> error + bool \<times> 'c theory_seq" where
  "solve_nc X idx st =
     (if idx \<ge> length (m_ncs st) then Inl Verify_failed
      else let n = m_ncs st ! idx in
        case contains n of
          Contains a b \<Rightarrow>
            (case get_assignment X (ctx st) (len_gt n) of
               l_true \<Rightarrow>
                 let st1 = snd (add_length_to_eqc X a st);
                     st2 = snd (add_length_to_eqc X b st1)
                 in Inr (True, st2)
             | l_undef \<Rightarrow>
                 Inr (False, st\<lparr>ctx := mark_as_relevant X (len_gt n) (ctx st),
                                m_new_propagation := True\<rparr>)
             | l_false \<Rightarrow>
                 Inr (True, fold (add_axiom X) (unroll_not_contains X (contains n)) st))
        | _ \<Rightarrow> Inl Verify_failed)"

text \<open>\<open>erase_and_swap(i)\<close>: the last element takes the place of the erased one.\<close>

definition erase_and_swap :: "nat \<Rightarrow> 'a list \<Rightarrow> 'a list" where
  "erase_and_swap i xs = (if i + 1 < length xs then butlast (xs[i := last xs]) else butlast xs)"

text \<open>
  One iteration of the loop of \<open>check_contains\<close>, returning the next index: a solved
  entry is erased and the index stays (\<open>i--\<close> followed by \<open>++i\<close>).
\<close>

definition check_contains_step ::
  "'c externals \<Rightarrow> nat \<Rightarrow> 'c theory_seq \<Rightarrow> error + nat \<times> 'c theory_seq" where
  "check_contains_step X i st =
     (case solve_nc X i st of
        Inl e \<Rightarrow> Inl e
      | Inr (solved, st1) \<Rightarrow>
          if solved then Inr (i, st1\<lparr>m_ncs := erase_and_swap i (m_ncs st1)\<rparr>)
          else Inr (i + 1, st1))"

lemma add_axiom_m_ncs: "m_ncs (add_axiom X ls st) = m_ncs st"
  by (simp add: add_axiom_def Let_def)

lemma fold_add_axiom_m_ncs: "m_ncs (fold (add_axiom X) cs st) = m_ncs st"
  by (induction cs arbitrary: st) (simp_all add: add_axiom_m_ncs)

lemma add_length_to_eqc_loop_m_ncs:
  "m_ncs (snd (add_length_to_eqc_loop os change st)) = m_ncs st"
  by (induction os arbitrary: change st) (simp_all add: add_length_def enque_axiom_def)

lemma add_length_to_eqc_m_ncs: "m_ncs (snd (add_length_to_eqc X e st)) = m_ncs st"
  by (simp add: add_length_to_eqc_def Let_def add_length_to_eqc_loop_m_ncs)

lemma solve_nc_m_ncs: "solve_nc X idx st = Inr (b, st1) \<Longrightarrow> m_ncs st1 = m_ncs st"
  by (auto simp add: solve_nc_def Let_def add_length_to_eqc_m_ncs fold_add_axiom_m_ncs
      split: if_splits expr.splits lbool.splits)

lemma length_erase_and_swap: "length (erase_and_swap i xs) = length xs - 1"
  by (simp add: erase_and_swap_def)

function check_contains_loop ::
  "'c externals \<Rightarrow> nat \<Rightarrow> 'c theory_seq \<Rightarrow> error + 'c theory_seq" where
  "check_contains_loop X i st =
     (if \<not> inconsistent X (ctx st) \<and> i < length (m_ncs st) then
        (case check_contains_step X i st of
           Inl e \<Rightarrow> Inl e
         | Inr (j, st1) \<Rightarrow> check_contains_loop X j st1)
      else Inr st)"
  by pat_completeness auto
termination
proof (relation "measure (\<lambda>(X, i, st). length (m_ncs st) - i)")
  show "wf (measure (\<lambda>(X :: 'c externals, i, st :: 'c theory_seq). length (m_ncs st) - i))"
    by simp
next
  fix X :: "'c externals" and i :: nat and st st1 :: "'c theory_seq" and x2 j
  assume c: "\<not> inconsistent X (ctx st) \<and> i < length (m_ncs st)"
    and s: "check_contains_step X i st = Inr x2" and p: "(j, st1) = x2"
  from s p have "check_contains_step X i st = Inr (j, st1)"
    by simp
  then have "length (m_ncs st1) - j < length (m_ncs st) - i"
    using c
    by (auto simp add: check_contains_step_def length_erase_and_swap
        split: sum.splits if_splits dest!: solve_nc_m_ncs)
  then show "((X, j, st1), (X, i, st)) \<in> measure (\<lambda>(X, i, st). length (m_ncs st) - i)"
    by simp
qed

definition check_contains :: "'c externals \<Rightarrow> 'c theory_seq \<Rightarrow> error + bool \<times> 'c theory_seq" where
  "check_contains X st =
     (case check_contains_loop X 0 st of
        Inl e \<Rightarrow> Inl e
      | Inr st1 \<Rightarrow> Inr (m_new_propagation st1 \<or> inconsistent X (ctx st1), st1))"

text \<open>
  Where the entries come from: the branch of \<open>assign_eh\<close> for a literal \<open>contains(e1, e2)\<close>
  that is assigned false, once \<open>canonizes\<close> has declined. The second argument is
  propagated to be non-empty, and the entry is pushed with the literal
  \<open>|e1| - |e2| \<le> -1\<close> as its guard (\<open>m_ax.mk_le(t, k)\<close> is the literal of \<open>t \<le> k\<close>).
  \<open>mk_eq_empty\<close> decides emptiness where the units of the term show it.
\<close>

definition mk_eq_empty ::
  "'c externals \<Rightarrow> expr \<Rightarrow> bool \<Rightarrow> 'c theory_seq \<Rightarrow> literal \<times> 'c theory_seq" where
  "mk_eq_empty X e phase st =
     (if e = Empty then (true_literal, st)
      else if list_ex (\<lambda>c. case c of Unit u \<Rightarrow> True | Str s \<Rightarrow> length s > 0 | _ \<Rightarrow> False)
                (get_concat_units X e)
      then (false_literal, st)
      else
        let lit = mk_literal (Eq e Empty) in
        (lit, st\<lparr>ctx := mark_as_relevant X lit
                          (force_phase X (if phase then lit else neg lit) (ctx st))\<rparr>))"

definition propagate_non_empty ::
  "'c externals \<Rightarrow> literal \<Rightarrow> expr \<Rightarrow> 'c theory_seq \<Rightarrow> 'c theory_seq" where
  "propagate_non_empty X lit s st =
     (case mk_eq_empty X s True st of (l, st1) \<Rightarrow> propagate_lit X [] [lit] (neg l) st1)"

definition assign_eh_not_contains ::
  "'c externals \<Rightarrow> literal \<Rightarrow> expr \<Rightarrow> 'c theory_seq \<Rightarrow> 'c theory_seq" where
  "assign_eh_not_contains X lit e st =
     (case e of
        Contains e1 e2 \<Rightarrow>
          let se1 = m_rewrite X e1;
              se2 = m_rewrite X e2;
              st1 = propagate_non_empty X lit se2 st;
              dep = [ALit lit];
              len_gt = mk_literal (Le (mk_sub X (mk_len X se1) (mk_len X se2)) (Num (- 1)))
          in st1\<lparr>ctx := force_phase X len_gt (ctx st1),
                 m_ncs := m_ncs st1 @ [\<lparr>contains = e, len_gt = len_gt, nc_deps = dep\<rparr>]\<rparr>
      | _ \<Rightarrow> st)"

text \<open>
  A small engine for exercising the model on concrete inputs: its state is a fixed
  assignment, a scope level and the list of the calls it received; the equivalence
  class of a term is the term alone, and the axiom module unrolls a negated
  containment into the two clauses the header of the source lists.
\<close>

datatype engine_call =
  Relevant literal | Assign literal "literal list" | Conflict "literal list" | Th_axiom "literal list"

record toy_ctx =
  toy_assignment :: "literal \<Rightarrow> lbool"
  toy_scope_level :: nat
  toy_calls :: "engine_call list"

definition toy_ctx0 :: "(literal \<Rightarrow> lbool) \<Rightarrow> nat \<Rightarrow> toy_ctx" where
  "toy_ctx0 a lvl = \<lparr>toy_assignment = a, toy_scope_level = lvl, toy_calls = []\<rparr>"

definition toy_externals :: "toy_ctx externals" where
  "toy_externals =
     \<lparr>get_assignment = toy_assignment,
      mark_as_relevant = (\<lambda>l c. c\<lparr>toy_calls := toy_calls c @ [Relevant l]\<rparr>),
      force_phase = (\<lambda>l c. c),
      inconsistent = (\<lambda>c. list_ex (\<lambda>x. case x of Conflict _ \<Rightarrow> True | _ \<Rightarrow> False) (toy_calls c)),
      get_scope_level = toy_scope_level,
      ctx_assign = (\<lambda>l js eqs c. c\<lparr>toy_calls := toy_calls c @ [Assign l js]\<rparr>),
      ctx_set_conflict = (\<lambda>js eqs c. c\<lparr>toy_calls := toy_calls c @ [Conflict js]\<rparr>),
      mk_th_axiom = (\<lambda>ls c. c\<lparr>toy_calls := toy_calls c @ [Th_axiom ls]\<rparr>),
      get_random_value = (\<lambda>c. (0, c)),
      ensure_enode = (\<lambda>e c. c),
      eqc = (\<lambda>c e. [e]),
      get_root = (\<lambda>c e. e),
      get_value = (\<lambda>c e. None),
      m_rewrite = (\<lambda>e. e),
      get_concat_units = (\<lambda>e. [e]),
      ctx_rewrite = (\<lambda>e. e),
      m_mk_aut = (\<lambda>e. None),
      unroll_not_contains = (\<lambda>e. case e of
          Contains a b \<Rightarrow> [[Pos e, Neg (Prefix b a)], [Pos e, Neg (Contains (Sk_tail a (Num 0)) b)]]
        | _ \<Rightarrow> []),
      ax_add_length_limit = (\<lambda>s k. (Sk_length_limit s k,
          [[Neg (Sk_length_limit s k), Pos (Le (Length s) (Num (uint k)))]])),
      ax_is_digit = (\<lambda>u. (Pos (Sk_is_digit u), []))\<rparr>"

text \<open>
  An assignment read off values: \<open>v\<close> gives every term that is not built by the
  arithmetic operators its integer value (a length, an integer constant, a digit),
  \<open>b\<close> gives every atom that is not a comparison its truth value. The engine that
  assigns its literals this way has decided every literal.
\<close>

fun int_value :: "(expr \<Rightarrow> int) \<Rightarrow> expr \<Rightarrow> int" where
  "int_value v (Num k) = k"
| "int_value v (Add x y) = int_value v x + int_value v y"
| "int_value v (Sub x y) = int_value v x - int_value v y"
| "int_value v (Mul x y) = int_value v x * int_value v y"
| "int_value v e = v e"

fun atom_holds :: "(expr \<Rightarrow> int) \<Rightarrow> (expr \<Rightarrow> bool) \<Rightarrow> expr \<Rightarrow> bool" where
  "atom_holds v b (Le x y) = (int_value v x \<le> int_value v y)"
| "atom_holds v b (Ge x y) = (int_value v x \<ge> int_value v y)"
| "atom_holds v b (Eq x y) = (int_value v x = int_value v y)"
| "atom_holds v b e = b e"

fun lit_holds :: "(expr \<Rightarrow> int) \<Rightarrow> (expr \<Rightarrow> bool) \<Rightarrow> literal \<Rightarrow> bool" where
  "lit_holds v b true_literal = True"
| "lit_holds v b false_literal = False"
| "lit_holds v b null_literal = False"
| "lit_holds v b (Pos a) = atom_holds v b a"
| "lit_holds v b (Neg a) = (\<not> atom_holds v b a)"

definition value_assignment :: "(expr \<Rightarrow> int) \<Rightarrow> (expr \<Rightarrow> bool) \<Rightarrow> literal \<Rightarrow> lbool" where
  "value_assignment v b l =
     (if l = null_literal then l_undef else if lit_holds v b l then l_true else l_false)"

lemma add_length_to_eqc_loop_has_length:
  "m_has_length (snd (add_length_to_eqc_loop os change st)) = m_has_length st \<union> set os"
  by (induction os arbitrary: change st)
     (auto simp add: add_length_def enque_axiom_def has_length_def)

lemma add_length_to_eqc_loop_ctx:
  "ctx (snd (add_length_to_eqc_loop os change st)) = ctx st"
  by (induction os arbitrary: change st) (simp_all add: add_length_def enque_axiom_def)

lemma add_length_to_eqc_ctx:
  "ctx (snd (add_length_to_eqc X e st)) = ensure_enode X e (ctx st)"
  by (simp add: add_length_to_eqc_def Let_def add_length_to_eqc_loop_ctx)

lemma add_length_to_eqc_has_length:
  "m_has_length (snd (add_length_to_eqc X e st)) =
     m_has_length st \<union> set (eqc X (ensure_enode X e (ctx st)) e)"
  by (simp add: add_length_to_eqc_def Let_def add_length_to_eqc_loop_has_length)

lemma add_length_to_eqc_loop_axiom_set:
  "m_axiom_set (snd (add_length_to_eqc_loop os change st))
     = m_axiom_set st \<union> Length ` (set os - m_has_length st)"
  by (induction os arbitrary: change st)
     (auto simp add: add_length_def enque_axiom_def has_length_def)

lemma add_length_to_eqc_loop_axioms:
  "set (m_axioms (snd (add_length_to_eqc_loop os change st)))
     = set (m_axioms st) \<union> (Length ` (set os - m_has_length st) - m_axiom_set st)"
  by (induction os arbitrary: change st)
     (auto simp add: add_length_def enque_axiom_def has_length_def)

lemma add_length_to_eqc_axiom_set:
  "m_axiom_set (snd (add_length_to_eqc X e st))
     = m_axiom_set st \<union> Length ` (set (eqc X (ensure_enode X e (ctx st)) e) - m_has_length st)"
  by (simp add: add_length_to_eqc_def Let_def add_length_to_eqc_loop_axiom_set)

lemma add_length_to_eqc_axioms:
  "set (m_axioms (snd (add_length_to_eqc X e st)))
     = set (m_axioms st)
       \<union> (Length ` (set (eqc X (ensure_enode X e (ctx st)) e) - m_has_length st) - m_axiom_set st)"
  by (simp add: add_length_to_eqc_def Let_def add_length_to_eqc_loop_axioms)

lemma fold_add_axiom_ctx:
  "ctx (fold (add_axiom X) cs st)
     = fold (\<lambda>ls c. if true_literal \<in> set ls then c
                     else mk_th_axiom X (filter (\<lambda>l. l \<noteq> null_literal \<and> l \<noteq> false_literal) ls)
                            (fold (mark_as_relevant X)
                               (filter (\<lambda>l. l \<noteq> null_literal \<and> l \<noteq> false_literal) ls) c))
         cs (ctx st)"
  by (induction cs arbitrary: st) (simp_all add: add_axiom_def Let_def)

lemma fold_add_axiom_count:
  "m_add_axiom (m_stats (fold (add_axiom X) cs st))
     = m_add_axiom (m_stats st) + length (filter (\<lambda>ls. true_literal \<notin> set ls) cs)"
  by (induction cs arbitrary: st) (simp_all add: add_axiom_def Let_def)

lemma fold_add_axiom_lengths:
  "m_has_length (fold (add_axiom X) cs st) = m_has_length st
   \<and> m_axioms (fold (add_axiom X) cs st) = m_axioms st"
  by (induction cs arbitrary: st) (simp_all add: add_axiom_def Let_def)

text \<open>
  Two terms with the lengths 2 and 1, or 1 and 2, and the state after \<open>contains(x0, x1)\<close>
  has been assigned false in an engine that decides its literals by given lengths.
\<close>

definition longer_first :: "expr \<Rightarrow> int" where
  "longer_first e = (if e = Length (Const 0) then 2 else if e = Length (Const 1) then 1 else 0)"

definition shorter_first :: "expr \<Rightarrow> int" where
  "shorter_first e = (if e = Length (Const 0) then 1 else if e = Length (Const 1) then 2 else 0)"

definition not_contains_state :: "(expr \<Rightarrow> int) \<Rightarrow> toy_ctx theory_seq" where
  "not_contains_state v =
     assign_eh_not_contains toy_externals (Neg (Contains (Const 0) (Const 1)))
       (Contains (Const 0) (Const 1))
       (theory_seq_init (toy_ctx0 (value_assignment v (\<lambda>e. False)) 1) True False)"

lemma not_contains_state_eq:
  "not_contains_state v =
     (theory_seq_init (toy_ctx0 (value_assignment v (\<lambda>e. False)) 1) True False)
       \<lparr>ctx := (toy_ctx0 (value_assignment v (\<lambda>e. False)) 1)
                 \<lparr>toy_calls := [Relevant (Pos (Eq (Const 1) Empty)),
                                 Relevant (Neg (Eq (Const 1) Empty)),
                                 Assign (Neg (Eq (Const 1) Empty)) [Neg (Contains (Const 0) (Const 1))]]\<rparr>,
         m_new_propagation := True,
         m_ncs := [\<lparr>contains = Contains (Const 0) (Const 1),
                     len_gt = Pos (Le (Sub (Length (Const 0)) (Length (Const 1))) (Num (- 1))),
                     nc_deps = [ALit (Neg (Contains (Const 0) (Const 1)))]\<rparr>]\<rparr>"
  by (simp add: not_contains_state_def assign_eh_not_contains_def propagate_non_empty_def
      mk_eq_empty_def propagate_lit_def mk_literal_def mk_sub_def mk_len_def Let_def
      toy_externals_def theory_seq_init_def toy_ctx0_def linearize_lits_def linearize_eqs_def)

text \<open>
  C5, as stated, fails in what the guard says. The entry that \<open>assign_eh\<close> pushes for a
  false \<open>contains(a, b)\<close> carries the literal \<open>|a| - |b| \<le> -1\<close>, that is \<open>|a| < |b|\<close>. With
  \<open>|a| = 2\<close> and \<open>|b| = 1\<close> the guard of the claim, \<open>|a| > |b|\<close>, is true, and the stored
  literal is false: \<open>solve_nc\<close> adds no length term and hands the two clauses of the
  unrolling to the engine.
\<close>

theorem solve_nc_guard_reversed:
  "value_assignment longer_first (\<lambda>e. False) (Neg (Le (Length (Const 0)) (Length (Const 1)))) = l_true
   \<and> len_gt (m_ncs (not_contains_state longer_first) ! 0)
       = Pos (Le (Sub (Length (Const 0)) (Length (Const 1))) (Num (- 1)))
   \<and> map_sum id fst (solve_nc toy_externals 0 (not_contains_state longer_first)) = Inr True
   \<and> m_has_length (snd (projr (solve_nc toy_externals 0 (not_contains_state longer_first)))) = {}
   \<and> m_axioms (snd (projr (solve_nc toy_externals 0 (not_contains_state longer_first)))) = []
   \<and> drop 3 (toy_calls (ctx (snd (projr (solve_nc toy_externals 0 (not_contains_state longer_first))))))
       = [Relevant (Pos (Contains (Const 0) (Const 1))),
          Relevant (Neg (Prefix (Const 1) (Const 0))),
          Th_axiom [Pos (Contains (Const 0) (Const 1)), Neg (Prefix (Const 1) (Const 0))],
          Relevant (Pos (Contains (Const 0) (Const 1))),
          Relevant (Neg (Contains (Sk_tail (Const 0) (Num 0)) (Const 1))),
          Th_axiom [Pos (Contains (Const 0) (Const 1)),
                    Neg (Contains (Sk_tail (Const 0) (Num 0)) (Const 1))]]"
  unfolding not_contains_state_eq
  by (simp add: solve_nc_def add_axiom_def value_assignment_def longer_first_def Let_def
      toy_externals_def theory_seq_init_def toy_ctx0_def)

text \<open>
  C5, amended. The guard of an entry for a negated \<open>contains(a, b)\<close> is the literal
  \<open>|a| - |b| \<le> -1\<close> (the lengths of the rewritten arguments), which says \<open>|a| < |b|\<close>;
  \<open>assign_eh\<close> pushes the entry with it. \<open>solve_nc\<close> dispatches on the guard of the entry:

  \<^item> guard true: every member of the class of \<open>a\<close> and of the class of \<open>b\<close> that had no
    length term gets one, and its length axiom is queued unless it was queued before;
    the call returns true and \<open>check_contains\<close> erases the entry;
  \<^item> guard unassigned: the guard is marked relevant and the progress flag is set; the
    call returns false and the entry stays;
  \<^item> guard false: every clause of the axiom module's unrolling of the containment that
    holds no true literal is handed to the engine (its literals marked relevant, null
    and false literals dropped) and counted; no length term is added; the call returns
    true and the entry is erased.
\<close>

theorem solve_nc_dispatch:
  assumes i: "idx < length (m_ncs st)"
    and n: "contains (m_ncs st ! idx) = Contains a b"
    and g: "len_gt (m_ncs st ! idx) = g"
  shows
    "last (m_ncs (assign_eh_not_contains X lit (Contains a b) st0))
       = \<lparr>contains = Contains a b,
          len_gt = Pos (Le (mk_sub X (mk_len X (m_rewrite X a)) (mk_len X (m_rewrite X b))) (Num (- 1))),
          nc_deps = [ALit lit]\<rparr>
     \<and> (get_assignment X (ctx st) g = l_true \<longrightarrow>
        (\<exists>st2. solve_nc X idx st = Inr (True, st2)
           \<and> ctx st2 = ensure_enode X b (ensure_enode X a (ctx st))
           \<and> m_has_length st2
               = m_has_length st \<union> set (eqc X (ensure_enode X a (ctx st)) a)
                   \<union> set (eqc X (ensure_enode X b (ensure_enode X a (ctx st))) b)
           \<and> m_axiom_set st2
               = m_axiom_set st
                   \<union> Length ` (set (eqc X (ensure_enode X a (ctx st)) a)
                                 \<union> set (eqc X (ensure_enode X b (ensure_enode X a (ctx st))) b)
                                 - m_has_length st)
           \<and> set (m_axioms st2)
               = set (m_axioms st)
                   \<union> (Length ` (set (eqc X (ensure_enode X a (ctx st)) a)
                                  \<union> set (eqc X (ensure_enode X b (ensure_enode X a (ctx st))) b)
                                  - m_has_length st)
                       - m_axiom_set st)
           \<and> check_contains_step X idx st
               = Inr (idx, st2\<lparr>m_ncs := erase_and_swap idx (m_ncs st)\<rparr>)))
     \<and> (get_assignment X (ctx st) g = l_undef \<longrightarrow>
        solve_nc X idx st
          = Inr (False, st\<lparr>ctx := mark_as_relevant X g (ctx st), m_new_propagation := True\<rparr>)
        \<and> check_contains_step X idx st
          = Inr (idx + 1, st\<lparr>ctx := mark_as_relevant X g (ctx st), m_new_propagation := True\<rparr>))
     \<and> (get_assignment X (ctx st) g = l_false \<longrightarrow>
        (\<exists>st2. solve_nc X idx st = Inr (True, st2)
           \<and> ctx st2
               = fold (\<lambda>ls c. if true_literal \<in> set ls then c
                              else mk_th_axiom X (filter (\<lambda>l. l \<noteq> null_literal \<and> l \<noteq> false_literal) ls)
                                     (fold (mark_as_relevant X)
                                        (filter (\<lambda>l. l \<noteq> null_literal \<and> l \<noteq> false_literal) ls) c))
                   (unroll_not_contains X (Contains a b)) (ctx st)
           \<and> m_add_axiom (m_stats st2)
               = m_add_axiom (m_stats st)
                 + length (filter (\<lambda>ls. true_literal \<notin> set ls) (unroll_not_contains X (Contains a b)))
           \<and> m_has_length st2 = m_has_length st \<and> m_axioms st2 = m_axioms st
           \<and> check_contains_step X idx st
               = Inr (idx, st2\<lparr>m_ncs := erase_and_swap idx (m_ncs st)\<rparr>)))"
proof (intro conjI impI)
  show "last (m_ncs (assign_eh_not_contains X lit (Contains a b) st0))
       = \<lparr>contains = Contains a b,
          len_gt = Pos (Le (mk_sub X (mk_len X (m_rewrite X a)) (mk_len X (m_rewrite X b))) (Num (- 1))),
          nc_deps = [ALit lit]\<rparr>"
    by (simp add: assign_eh_not_contains_def Let_def mk_literal_def)
next
  assume t: "get_assignment X (ctx st) g = l_true"
  let ?st1 = "snd (add_length_to_eqc X a st)"
  let ?st2 = "snd (add_length_to_eqc X b ?st1)"
  have s: "solve_nc X idx st = Inr (True, ?st2)"
    using i n g t by (simp add: solve_nc_def Let_def)
  have c: "ctx ?st2 = ensure_enode X b (ensure_enode X a (ctx st))"
    by (simp add: add_length_to_eqc_ctx)
  have h: "m_has_length ?st2
               = m_has_length st \<union> set (eqc X (ensure_enode X a (ctx st)) a)
                   \<union> set (eqc X (ensure_enode X b (ensure_enode X a (ctx st))) b)"
    by (simp add: add_length_to_eqc_has_length add_length_to_eqc_ctx)
  have q: "m_axiom_set ?st2
               = m_axiom_set st
                   \<union> Length ` (set (eqc X (ensure_enode X a (ctx st)) a)
                                 \<union> set (eqc X (ensure_enode X b (ensure_enode X a (ctx st))) b)
                                 - m_has_length st)"
    by (auto simp add: add_length_to_eqc_axiom_set add_length_to_eqc_has_length add_length_to_eqc_ctx)
  have x: "set (m_axioms ?st2)
               = set (m_axioms st)
                   \<union> (Length ` (set (eqc X (ensure_enode X a (ctx st)) a)
                                  \<union> set (eqc X (ensure_enode X b (ensure_enode X a (ctx st))) b)
                                  - m_has_length st)
                       - m_axiom_set st)"
    by (auto simp add: add_length_to_eqc_axioms add_length_to_eqc_axiom_set
        add_length_to_eqc_has_length add_length_to_eqc_ctx)
  have e: "check_contains_step X idx st = Inr (idx, ?st2\<lparr>m_ncs := erase_and_swap idx (m_ncs st)\<rparr>)"
    using s by (simp add: check_contains_step_def add_length_to_eqc_m_ncs)
  from s c h q x e
  show "\<exists>st2. solve_nc X idx st = Inr (True, st2)
           \<and> ctx st2 = ensure_enode X b (ensure_enode X a (ctx st))
           \<and> m_has_length st2
               = m_has_length st \<union> set (eqc X (ensure_enode X a (ctx st)) a)
                   \<union> set (eqc X (ensure_enode X b (ensure_enode X a (ctx st))) b)
           \<and> m_axiom_set st2
               = m_axiom_set st
                   \<union> Length ` (set (eqc X (ensure_enode X a (ctx st)) a)
                                 \<union> set (eqc X (ensure_enode X b (ensure_enode X a (ctx st))) b)
                                 - m_has_length st)
           \<and> set (m_axioms st2)
               = set (m_axioms st)
                   \<union> (Length ` (set (eqc X (ensure_enode X a (ctx st)) a)
                                  \<union> set (eqc X (ensure_enode X b (ensure_enode X a (ctx st))) b)
                                  - m_has_length st)
                       - m_axiom_set st)
           \<and> check_contains_step X idx st
               = Inr (idx, st2\<lparr>m_ncs := erase_and_swap idx (m_ncs st)\<rparr>)"
    by (intro exI [of _ ?st2] conjI)
next
  assume u: "get_assignment X (ctx st) g = l_undef"
  show s: "solve_nc X idx st
          = Inr (False, st\<lparr>ctx := mark_as_relevant X g (ctx st), m_new_propagation := True\<rparr>)"
    using i n g u by (simp add: solve_nc_def Let_def)
  show "check_contains_step X idx st
          = Inr (idx + 1, st\<lparr>ctx := mark_as_relevant X g (ctx st), m_new_propagation := True\<rparr>)"
    using s by (simp add: check_contains_step_def)
next
  assume f: "get_assignment X (ctx st) g = l_false"
  let ?st2 = "fold (add_axiom X) (unroll_not_contains X (Contains a b)) st"
  have s: "solve_nc X idx st = Inr (True, ?st2)"
    using i n g f by (simp add: solve_nc_def Let_def)
  have e: "check_contains_step X idx st = Inr (idx, ?st2\<lparr>m_ncs := erase_and_swap idx (m_ncs st)\<rparr>)"
    using s by (simp add: check_contains_step_def fold_add_axiom_m_ncs)
  from s e fold_add_axiom_ctx [of X "unroll_not_contains X (Contains a b)" st]
    fold_add_axiom_count [of X "unroll_not_contains X (Contains a b)" st]
    fold_add_axiom_lengths [of X "unroll_not_contains X (Contains a b)" st]
  show "\<exists>st2. solve_nc X idx st = Inr (True, st2)
           \<and> ctx st2
               = fold (\<lambda>ls c. if true_literal \<in> set ls then c
                              else mk_th_axiom X (filter (\<lambda>l. l \<noteq> null_literal \<and> l \<noteq> false_literal) ls)
                                     (fold (mark_as_relevant X)
                                        (filter (\<lambda>l. l \<noteq> null_literal \<and> l \<noteq> false_literal) ls) c))
                   (unroll_not_contains X (Contains a b)) (ctx st)
           \<and> m_add_axiom (m_stats st2)
               = m_add_axiom (m_stats st)
                 + length (filter (\<lambda>ls. true_literal \<notin> set ls) (unroll_not_contains X (Contains a b)))
           \<and> m_has_length st2 = m_has_length st \<and> m_axioms st2 = m_axioms st
           \<and> check_contains_step X idx st
               = Inr (idx, st2\<lparr>m_ncs := erase_and_swap idx (m_ncs st)\<rparr>)"
    by (intro exI [of _ ?st2]) simp
qed

theorem solve_nc_dispatch_witness:
  "value_assignment shorter_first (\<lambda>e. False)
       (len_gt (m_ncs (not_contains_state shorter_first) ! 0)) = l_true
   \<and> m_has_length (snd (projr (solve_nc toy_externals 0 (not_contains_state shorter_first))))
       = {Const 0, Const 1}
   \<and> set (m_axioms (snd (projr (solve_nc toy_externals 0 (not_contains_state shorter_first)))))
       = {Length (Const 0), Length (Const 1)}
   \<and> m_ncs (snd (projr (check_contains_step toy_externals 0 (not_contains_state shorter_first)))) = []"
proof -
  let ?st = "not_contains_state shorter_first"
  let ?g = "Pos (Le (Sub (Length (Const 0)) (Length (Const 1))) (Num (- 1)))"
  have h1: "0 < length (m_ncs ?st)"
    and h2: "contains (m_ncs ?st ! 0) = Contains (Const 0) (Const 1)"
    and h3: "len_gt (m_ncs ?st ! 0) = ?g"
    by (simp_all add: not_contains_state_eq)
  have h4: "get_assignment toy_externals (ctx ?st) ?g = l_true"
    by (simp add: not_contains_state_eq toy_externals_def toy_ctx0_def value_assignment_def
        shorter_first_def)
  have v: "value_assignment shorter_first (\<lambda>e. False) ?g = l_true"
    by (simp add: value_assignment_def shorter_first_def)
  from solve_nc_dispatch [OF h1 h2 h3, of toy_externals, THEN conjunct2, THEN conjunct1, rule_format, OF h4]
  obtain st2 where s: "solve_nc toy_externals 0 ?st = Inr (True, st2)"
    and l: "m_has_length st2
             = m_has_length ?st \<union> set (eqc toy_externals (ensure_enode toy_externals (Const 0) (ctx ?st)) (Const 0))
                 \<union> set (eqc toy_externals
                          (ensure_enode toy_externals (Const 1) (ensure_enode toy_externals (Const 0) (ctx ?st)))
                          (Const 1))"
    and x: "set (m_axioms st2)
             = set (m_axioms ?st)
                 \<union> (Length ` (set (eqc toy_externals (ensure_enode toy_externals (Const 0) (ctx ?st)) (Const 0))
                                \<union> set (eqc toy_externals
                                         (ensure_enode toy_externals (Const 1)
                                            (ensure_enode toy_externals (Const 0) (ctx ?st)))
                                         (Const 1))
                                - m_has_length ?st)
                     - m_axiom_set ?st)"
    and e: "check_contains_step toy_externals 0 ?st
             = Inr (0, st2\<lparr>m_ncs := erase_and_swap 0 (m_ncs ?st)\<rparr>)"
    by blast
  have q: "eqc toy_externals c t = [t]" for c t
    by (simp add: toy_externals_def)
  have l': "m_has_length st2 = {Const 0, Const 1}"
    unfolding l q by (auto simp add: not_contains_state_eq theory_seq_init_def)
  have x': "set (m_axioms st2) = {Length (Const 0), Length (Const 1)}"
    unfolding x q by (auto simp add: not_contains_state_eq theory_seq_init_def)
  have e': "m_ncs (snd (projr (check_contains_step toy_externals 0 ?st))) = []"
    unfolding e by (simp add: not_contains_state_eq erase_and_swap_def)
  from v h3 l' x' e' show ?thesis
    unfolding s by simp
qed

section \<open>Assumption literals and the research loop\<close>

text \<open>
  \<open>add_length_limit\<close>: the axiom module builds the tracking term and emits its clause
  first; a bound that does not exceed the bound already recorded for the sequence
  changes nothing else.
\<close>

definition add_length_limit ::
  "'c externals \<Rightarrow> expr \<Rightarrow> 32 word \<Rightarrow> bool \<Rightarrow> 'c theory_seq \<Rightarrow> 'c theory_seq" where
  "add_length_limit X s k is_searching st =
     (case ax_add_length_limit X s k of (lim_e, clauses) \<Rightarrow>
        let st1 = fold (add_axiom X) clauses st in
        if (case m_length_limit_map st1 s of Some k0 \<Rightarrow> k \<le> k0 | None \<Rightarrow> False) then st1
        else
          let st2 = st1\<lparr>m_length_limit_map := (m_length_limit_map st1)(s \<mapsto> k),
                        m_length_limit := m_length_limit st1 @ [lim_e]\<rparr>
          in if is_searching
             then add_axiom X [neg (mk_literal (Sk_max_unfolding (m_max_unfolding_depth st2))),
                               mk_literal lim_e] st2
             else st2)"

text \<open>
  \<open>add_theory_assumptions\<close> returns the assumptions it pushes: the unfolding literal of
  the current depth, then one length-limit literal for every entry of the map (listed
  here for the sequences \<open>keys\<close>, the map's iteration order being the hash table's).
\<close>

definition add_theory_assumptions ::
  "expr list \<Rightarrow> 'c theory_seq \<Rightarrow> expr list \<times> 'c theory_seq" where
  "add_theory_assumptions keys st =
     (if m_has_seq st then
        let dlimit = Sk_max_unfolding (m_max_unfolding_depth st) in
        (dlimit # concat (map (\<lambda>s. case m_length_limit_map st s of
                                     Some k \<Rightarrow> [Sk_length_limit s k] | None \<Rightarrow> []) keys),
         st\<lparr>m_max_unfolding_lit := mk_literal dlimit\<rparr>)
      else ([], st))"

text \<open>
  The loop of \<open>should_research\<close> over the unsat core. Its variables are \<open>k_min\<close>,
  \<open>s_min\<close> (null at first), the tie counter \<open>n\<close>, \<open>has_max_unfolding\<close>, and the engine
  state, which a random draw changes. The draw happens only for a literal whose bound
  equals the current minimum. The counter \<open>n\<close> is at most the length of the core, so
  its wrap-around plays no part and it is a natural number.
\<close>

fun research_loop ::
  "'c externals \<Rightarrow> expr list \<Rightarrow> 32 word \<times> expr option \<times> nat \<times> bool \<times> 'c \<Rightarrow>
   32 word \<times> expr option \<times> nat \<times> bool \<times> 'c" where
  "research_loop X [] acc = acc"
| "research_loop X (e # es) (k_min, s_min, n, has_max_unfolding, c) =
     (case e of
        Sk_max_unfolding d \<Rightarrow> research_loop X es (k_min, s_min, n, True, c)
      | Sk_length_limit s k \<Rightarrow>
          if k < k_min then research_loop X es (k, Some s, 0, has_max_unfolding, c)
          else if k = k_min then
            (case get_random_value X c of (r, c1) \<Rightarrow>
               if unat r mod (n + 1) = 0
               then research_loop X es (k_min, Some s, n + 1, has_max_unfolding, c1)
               else research_loop X es (k_min, s_min, n + 1, has_max_unfolding, c1))
          else research_loop X es (k_min, s_min, n, has_max_unfolding, c)
      | _ \<Rightarrow> research_loop X es (k_min, s_min, n, has_max_unfolding, c))"

definition UINT_MAX :: "32 word" where
  "UINT_MAX = - 1"

text \<open>
  \<open>should_research\<close>. With \<open>k_min < UINT_MAX\<close> the loop has set \<open>s_min\<close>; the null case
  is the dereference of a null pointer and is kept as an error.
\<close>

definition should_research ::
  "'c externals \<Rightarrow> expr list \<Rightarrow> 'c theory_seq \<Rightarrow> error + bool \<times> 'c theory_seq" where
  "should_research X unsat_core st =
     (if \<not> m_has_seq st then Inr (False, st)
      else case research_loop X unsat_core (UINT_MAX, None, 0, False, ctx st) of
        (k_min, s_min, n, has_max_unfolding, c) \<Rightarrow>
          let st1 = st\<lparr>ctx := c\<rparr> in
          if k_min < UINT_MAX then
            (case s_min of
               None \<Rightarrow> Inl Verify_failed
             | Some s \<Rightarrow>
                 Inr (True, add_length_limit X s (2 * k_min) False
                              (st1\<lparr>m_max_unfolding_depth := m_max_unfolding_depth st1 + 1\<rparr>)))
          else if has_max_unfolding then
            Inr (True, st1\<lparr>m_max_unfolding_depth := (1 + 3 * m_max_unfolding_depth st1) div 2\<rparr>)
          else Inr (False, st1))"

text \<open>
  The recognisers of the Skolem module, and what a core holds: the bounds of its
  length-limit literals and whether it has an unfolding literal.
\<close>

fun is_length_limit :: "expr \<Rightarrow> (expr \<times> 32 word) option" where
  "is_length_limit (Sk_length_limit s k) = Some (s, k)"
| "is_length_limit _ = None"

fun is_max_unfolding :: "expr \<Rightarrow> bool" where
  "is_max_unfolding (Sk_max_unfolding d) = True"
| "is_max_unfolding _ = False"

definition core_limits :: "expr list \<Rightarrow> (expr \<times> 32 word) list" where
  "core_limits core = List.map_filter is_length_limit core"

definition core_has_max_unfolding :: "expr list \<Rightarrow> bool" where
  "core_has_max_unfolding core = list_ex is_max_unfolding core"

lemma core_limits_Nil: "core_limits [] = []"
  by (simp add: core_limits_def map_filter_simps)

lemma core_limits_Cons:
  "core_limits (e # es) =
     (case is_length_limit e of Some p \<Rightarrow> p # core_limits es | None \<Rightarrow> core_limits es)"
  by (simp add: core_limits_def map_filter_simps split: option.split)

lemma core_has_max_unfolding_Nil: "\<not> core_has_max_unfolding []"
  by (simp add: core_has_max_unfolding_def)

lemma core_has_max_unfolding_Cons:
  "core_has_max_unfolding (e # es) \<longleftrightarrow> is_max_unfolding e \<or> core_has_max_unfolding es"
  by (simp add: core_has_max_unfolding_def)

lemma research_loop_Cons:
  "research_loop X (e # es) (k_min, s_min, n, h, c) =
     (if is_max_unfolding e then research_loop X es (k_min, s_min, n, True, c)
      else case is_length_limit e of
        None \<Rightarrow> research_loop X es (k_min, s_min, n, h, c)
      | Some (s, k) \<Rightarrow>
          if k < k_min then research_loop X es (k, Some s, 0, h, c)
          else if k = k_min then
            (case get_random_value X c of (r, c1) \<Rightarrow>
               if unat r mod (n + 1) = 0
               then research_loop X es (k_min, Some s, n + 1, h, c1)
               else research_loop X es (k_min, s_min, n + 1, h, c1))
          else research_loop X es (k_min, s_min, n, h, c))"
  by (cases e) simp_all

lemma is_max_unfolding_not_limit: "is_max_unfolding e \<Longrightarrow> is_length_limit e = None"
  by (cases e) simp_all

lemma research_loop_inv:
  "research_loop X core (k0, s0, n0, h0, c0) = (k1, s1, n1, h1, c1) \<Longrightarrow>
     k1 = fold min (map snd (core_limits core)) k0
     \<and> (h1 \<longleftrightarrow> h0 \<or> core_has_max_unfolding core)
     \<and> (s1 = s0 \<and> k1 = k0 \<or> (\<exists>s. s1 = Some s \<and> (s, k1) \<in> set (core_limits core)))
     \<and> (core_limits core = [] \<longrightarrow> c1 = c0)"
proof (induction core arbitrary: k0 s0 n0 h0 c0)
  case Nil
  then show ?case
    by (simp add: core_limits_Nil core_has_max_unfolding_Nil)
next
  case (Cons e es)
  note step = Cons.prems [unfolded research_loop_Cons]
  show ?case
  proof (cases "is_max_unfolding e")
    case True
    with step have "research_loop X es (k0, s0, n0, True, c0) = (k1, s1, n1, h1, c1)"
      by simp
    from Cons.IH [OF this] True show ?thesis
      by (auto simp add: core_limits_Cons core_has_max_unfolding_Cons is_max_unfolding_not_limit)
  next
    case nomax: False
    show ?thesis
    proof (cases "is_length_limit e")
      case None
      with step nomax have "research_loop X es (k0, s0, n0, h0, c0) = (k1, s1, n1, h1, c1)"
        by simp
      from Cons.IH [OF this] None nomax show ?thesis
        by (auto simp add: core_limits_Cons core_has_max_unfolding_Cons)
    next
      case (Some p)
      obtain s k where p: "p = (s, k)"
        by (cases p)
      consider (lt) "k < k0" | (eq) "k = k0" | (gt) "k0 < k"
        by (meson linorder_less_linear)
      then show ?thesis
      proof cases
        case lt
        with step nomax Some p
        have "research_loop X es (k, Some s, 0, h0, c0) = (k1, s1, n1, h1, c1)"
          by simp
        from Cons.IH [OF this] Some p nomax lt show ?thesis
          by (auto simp add: core_limits_Cons core_has_max_unfolding_Cons min_def)
      next
        case eq
        obtain r c' where r: "get_random_value X c0 = (r, c')"
          by (cases "get_random_value X c0")
        show ?thesis
        proof (cases "unat r mod (n0 + 1) = 0")
          case True
          with step nomax Some p eq r
          have "research_loop X es (k0, Some s, n0 + 1, h0, c') = (k1, s1, n1, h1, c1)"
            by simp
          from Cons.IH [OF this] Some p nomax eq show ?thesis
            by (auto simp add: core_limits_Cons core_has_max_unfolding_Cons)
        next
          case False
          with step nomax Some p eq r
          have "research_loop X es (k0, s0, n0 + 1, h0, c') = (k1, s1, n1, h1, c1)"
            by simp
          from Cons.IH [OF this] Some p nomax eq show ?thesis
            by (auto simp add: core_limits_Cons core_has_max_unfolding_Cons)
        qed
      next
        case gt
        then have "\<not> k < k0" and "k \<noteq> k0"
          by auto
        with step nomax Some p
        have "research_loop X es (k0, s0, n0, h0, c0) = (k1, s1, n1, h1, c1)"
          by simp
        from Cons.IH [OF this] Some p nomax gt show ?thesis
          by (auto simp add: core_limits_Cons core_has_max_unfolding_Cons min_def)
      qed
    qed
  qed
qed

lemma add_axiom_m_length_limit_map:
  "m_length_limit_map (add_axiom X ls st) = m_length_limit_map st"
  by (simp add: add_axiom_def Let_def)

lemma fold_add_axiom_m_length_limit_map:
  "m_length_limit_map (fold (add_axiom X) cs st) = m_length_limit_map st"
  by (induction cs arbitrary: st) (simp_all add: add_axiom_m_length_limit_map)

lemma add_length_limit_raises:
  "(\<forall>k0. m_length_limit_map st s = Some k0 \<longrightarrow> k0 < k) \<Longrightarrow>
   m_length_limit_map (add_length_limit X s k False st) s = Some k"
  by (auto simp add: add_length_limit_def Let_def fold_add_axiom_m_length_limit_map
      split: prod.splits option.splits)

text \<open>
  C3, as stated, fails twice. A core with the unfolding literal and a length-limit
  literal, at depth 3: the depth becomes 4, not \<open>(1 + 3 * 3) / 2 = 5\<close>. A core with two
  length-limit literals of bounds 3 and 5: only the bound 3 is doubled, the sequence
  with bound 5 keeps it.
\<close>

theorem should_research_not_as_stated:
  "map_sum id fst (should_research toy_externals [Sk_max_unfolding 3, Sk_length_limit (Const 0) 3]
       ((theory_seq_init (toy_ctx0 (\<lambda>l. l_undef) 1) True False)
          \<lparr>m_max_unfolding_depth := 3, m_length_limit_map := [Const 0 \<mapsto> 3]\<rparr>)) = Inr True
   \<and> m_max_unfolding_depth (snd (projr
       (should_research toy_externals [Sk_max_unfolding 3, Sk_length_limit (Const 0) 3]
         ((theory_seq_init (toy_ctx0 (\<lambda>l. l_undef) 1) True False)
            \<lparr>m_max_unfolding_depth := 3, m_length_limit_map := [Const 0 \<mapsto> 3]\<rparr>)))) = 4
   \<and> (1 + 3 * 3) div 2 = (5 :: 32 word)
   \<and> m_length_limit_map (snd (projr
       (should_research toy_externals [Sk_length_limit (Const 0) 3, Sk_length_limit (Const 1) 5]
         ((theory_seq_init (toy_ctx0 (\<lambda>l. l_undef) 1) True False)
            \<lparr>m_length_limit_map := [Const 0 \<mapsto> 3, Const 1 \<mapsto> 5]\<rparr>)))) (Const 1) = Some 5
   \<and> m_length_limit_map (snd (projr
       (should_research toy_externals [Sk_length_limit (Const 0) 3, Sk_length_limit (Const 1) 5]
         ((theory_seq_init (toy_ctx0 (\<lambda>l. l_undef) 1) True False)
            \<lparr>m_length_limit_map := [Const 0 \<mapsto> 3, Const 1 \<mapsto> 5]\<rparr>)))) (Const 0) = Some 6"
  by (simp add: should_research_def UINT_MAX_def theory_seq_init_def toy_externals_def
      add_length_limit_def add_axiom_def mk_literal_def Let_def)

text \<open>
  C3, amended. In a solver with sequence terms, let \<open>k_min\<close> be the least bound among
  the length-limit literals of the core. If there is one below \<open>UINT_MAX\<close>,
  \<open>should_research\<close> takes a sequence \<open>s\<close> of the core with that bound, increments the
  unfolding depth by one, calls \<open>add_length_limit(s, 2 * k_min)\<close> (which sets the bound of
  \<open>s\<close> to \<open>2 * k_min\<close>, in unsigned 32-bit arithmetic, when that exceeds the bound
  recorded for \<open>s\<close>) and requests a restart; no other bound changes. Otherwise, if the
  core contains an unfolding literal, the depth \<open>d\<close> becomes \<open>(1 + 3 * d) / 2\<close> and a
  restart is requested. Otherwise no restart is requested; with neither kind of literal
  in the core the state is unchanged.
\<close>

theorem should_research_cases:
  assumes "m_has_seq st"
  shows
    "(fold min (map snd (core_limits core)) UINT_MAX < UINT_MAX \<longrightarrow>
        (\<exists>s c. (s, fold min (map snd (core_limits core)) UINT_MAX) \<in> set (core_limits core)
           \<and> should_research X core st
               = Inr (True, add_length_limit X s (2 * fold min (map snd (core_limits core)) UINT_MAX) False
                       (st\<lparr>ctx := c, m_max_unfolding_depth := m_max_unfolding_depth st + 1\<rparr>))
           \<and> ((\<forall>k0. m_length_limit_map st s = Some k0
                      \<longrightarrow> k0 < 2 * fold min (map snd (core_limits core)) UINT_MAX)
                \<longrightarrow> m_length_limit_map (snd (projr (should_research X core st))) s
                      = Some (2 * fold min (map snd (core_limits core)) UINT_MAX))
           \<and> (\<forall>s'. s' \<noteq> s \<longrightarrow> m_length_limit_map (snd (projr (should_research X core st))) s'
                                  = m_length_limit_map st s')))
     \<and> (\<not> fold min (map snd (core_limits core)) UINT_MAX < UINT_MAX \<and> core_has_max_unfolding core \<longrightarrow>
        (\<exists>c. should_research X core st
               = Inr (True, st\<lparr>ctx := c,
                        m_max_unfolding_depth := (1 + 3 * m_max_unfolding_depth st) div 2\<rparr>)))
     \<and> (\<not> fold min (map snd (core_limits core)) UINT_MAX < UINT_MAX \<and> \<not> core_has_max_unfolding core \<longrightarrow>
        (\<exists>c. should_research X core st = Inr (False, st\<lparr>ctx := c\<rparr>)))
     \<and> (core_limits core = [] \<and> \<not> core_has_max_unfolding core \<longrightarrow>
        should_research X core st = Inr (False, st))"
proof -
  let ?k = "fold min (map snd (core_limits core)) UINT_MAX"
  obtain k1 s1 n1 h1 c1
    where loop: "research_loop X core (UINT_MAX, None, 0, False, ctx st) = (k1, s1, n1, h1, c1)"
    by (metis prod_cases5)
  from research_loop_inv [OF loop]
  have k1: "k1 = ?k" and h1: "h1 \<longleftrightarrow> core_has_max_unfolding core"
    and s1: "s1 = None \<and> k1 = UINT_MAX \<or> (\<exists>s. s1 = Some s \<and> (s, k1) \<in> set (core_limits core))"
    and c1: "core_limits core = [] \<longrightarrow> c1 = ctx st"
    by auto
  have first: "?k < UINT_MAX \<longrightarrow>
        (\<exists>s c. (s, ?k) \<in> set (core_limits core)
           \<and> should_research X core st
               = Inr (True, add_length_limit X s (2 * ?k) False
                       (st\<lparr>ctx := c, m_max_unfolding_depth := m_max_unfolding_depth st + 1\<rparr>))
           \<and> ((\<forall>k0. m_length_limit_map st s = Some k0 \<longrightarrow> k0 < 2 * ?k)
                \<longrightarrow> m_length_limit_map (snd (projr (should_research X core st))) s = Some (2 * ?k))
           \<and> (\<forall>s'. s' \<noteq> s \<longrightarrow> m_length_limit_map (snd (projr (should_research X core st))) s'
                                  = m_length_limit_map st s'))"
  proof
    assume lt: "?k < UINT_MAX"
    with s1 k1 obtain s where s: "s1 = Some s" "(s, ?k) \<in> set (core_limits core)"
      by auto
    let ?st' = "st\<lparr>ctx := c1, m_max_unfolding_depth := m_max_unfolding_depth st + 1\<rparr>"
    have r: "should_research X core st = Inr (True, add_length_limit X s (2 * ?k) False ?st')"
      using assms loop lt k1 s by (simp add: should_research_def)
    have raise: "(\<forall>k0. m_length_limit_map st s = Some k0 \<longrightarrow> k0 < 2 * ?k)
        \<longrightarrow> m_length_limit_map (snd (projr (should_research X core st))) s = Some (2 * ?k)"
      using add_length_limit_raises [of ?st' s "2 * ?k" X] by (simp add: r)
    have others: "\<forall>s'. s' \<noteq> s \<longrightarrow>
        m_length_limit_map (snd (projr (should_research X core st))) s' = m_length_limit_map st s'"
      by (auto simp add: r add_length_limit_def Let_def fold_add_axiom_m_length_limit_map
          split: prod.splits option.splits)
    from s r raise others
    show "\<exists>s c. (s, ?k) \<in> set (core_limits core)
           \<and> should_research X core st
               = Inr (True, add_length_limit X s (2 * ?k) False
                       (st\<lparr>ctx := c, m_max_unfolding_depth := m_max_unfolding_depth st + 1\<rparr>))
           \<and> ((\<forall>k0. m_length_limit_map st s = Some k0 \<longrightarrow> k0 < 2 * ?k)
                \<longrightarrow> m_length_limit_map (snd (projr (should_research X core st))) s = Some (2 * ?k))
           \<and> (\<forall>s'. s' \<noteq> s \<longrightarrow> m_length_limit_map (snd (projr (should_research X core st))) s'
                                  = m_length_limit_map st s')"
      by blast
  qed
  have second: "\<not> ?k < UINT_MAX \<and> core_has_max_unfolding core \<longrightarrow>
        (\<exists>c. should_research X core st
               = Inr (True, st\<lparr>ctx := c,
                        m_max_unfolding_depth := (1 + 3 * m_max_unfolding_depth st) div 2\<rparr>))"
    using assms loop k1 h1 by (auto simp add: should_research_def)
  have third: "\<not> ?k < UINT_MAX \<and> \<not> core_has_max_unfolding core \<longrightarrow>
        (\<exists>c. should_research X core st = Inr (False, st\<lparr>ctx := c\<rparr>))"
    using assms loop k1 h1 by (auto simp add: should_research_def)
  have fourth: "core_limits core = [] \<and> \<not> core_has_max_unfolding core \<longrightarrow>
        should_research X core st = Inr (False, st)"
    using assms loop k1 h1 c1 by (auto simp add: should_research_def)
  from first second third fourth show ?thesis
    by blast
qed

theorem should_research_cases_witness:
  "map_sum id fst (should_research toy_externals [Sk_max_unfolding 3]
       ((theory_seq_init (toy_ctx0 (\<lambda>l. l_undef) 1) True False)\<lparr>m_max_unfolding_depth := 3\<rparr>)) = Inr True
   \<and> m_max_unfolding_depth (snd (projr (should_research toy_externals [Sk_max_unfolding 3]
       ((theory_seq_init (toy_ctx0 (\<lambda>l. l_undef) 1) True False)\<lparr>m_max_unfolding_depth := 3\<rparr>)))) = 5
   \<and> should_research toy_externals [Const 7]
       ((theory_seq_init (toy_ctx0 (\<lambda>l. l_undef) 1) True False)\<lparr>m_max_unfolding_depth := 3\<rparr>)
     = Inr (False, (theory_seq_init (toy_ctx0 (\<lambda>l. l_undef) 1) True False)\<lparr>m_max_unfolding_depth := 3\<rparr>)"
proof -
  let ?st = "(theory_seq_init (toy_ctx0 (\<lambda>l. l_undef) 1) True False)\<lparr>m_max_unfolding_depth := 3\<rparr>"
  have h: "m_has_seq ?st"
    by (simp add: theory_seq_init_def)
  have a: "\<not> fold min (map snd (core_limits [Sk_max_unfolding 3])) UINT_MAX < UINT_MAX
      \<and> core_has_max_unfolding [Sk_max_unfolding 3]"
    by (simp add: core_limits_Cons core_limits_Nil core_has_max_unfolding_Cons)
  have b: "core_limits [Const 7] = [] \<and> \<not> core_has_max_unfolding [Const 7]"
    by (simp add: core_limits_Cons core_limits_Nil core_has_max_unfolding_Cons
        core_has_max_unfolding_Nil)
  from should_research_cases [OF h, of "[Sk_max_unfolding 3]" toy_externals] a
    should_research_cases [OF h, of "[Const 7]" toy_externals] b
  show ?thesis
    by (auto simp add: theory_seq_init_def)
qed

section \<open>Automata: accept literals\<close>

text \<open>
  \<open>get_automaton\<close> memoises the result of the builder, a null result included: the table
  of automata then holds a null entry.
\<close>

definition get_automaton ::
  "'c externals \<Rightarrow> expr \<Rightarrow> 'c theory_seq \<Rightarrow> eautomaton option \<times> 'c theory_seq" where
  "get_automaton X re st =
     (case m_re2aut st re of
        Some result \<Rightarrow> (result, st)
      | None \<Rightarrow>
          let result = m_mk_aut X re in
          (result, st\<lparr>m_automata := m_automata st @ [result],
                      m_re2aut := (m_re2aut st)(re \<mapsto> result),
                      m_res := m_res st @ [re]\<rparr>))"









section \<open>Membership in a regular expression\<close>










lemma get_automaton_fresh:
  assumes "m_re2aut st re = None"
  shows "get_automaton X re st
         = (m_mk_aut X re, st\<lparr>m_automata := m_automata st @ [m_mk_aut X re],
                                m_re2aut := (m_re2aut st)(re \<mapsto> m_mk_aut X re),
                                m_res := m_res st @ [re]\<rparr>)"
  using assms by (simp add: get_automaton_def Let_def)




section \<open>Recognisers\<close>

text \<open>
  The recognisers of the sequence utilities (\<open>m_util.str.is_concat\<close> and the like), as
  the traversals use them: each returns the arguments of the operator when the term has
  that operator at its root.
\<close>

definition str_is_concat :: "expr \<Rightarrow> (expr \<times> expr) option" where
  "str_is_concat e = (case e of Concat e1 e2 \<Rightarrow> Some (e1, e2) | _ \<Rightarrow> None)"

definition str_is_unit :: "expr \<Rightarrow> expr option" where
  "str_is_unit e = (case e of Unit u \<Rightarrow> Some u | _ \<Rightarrow> None)"

definition str_is_empty :: "expr \<Rightarrow> bool" where
  "str_is_empty e = (case e of Empty \<Rightarrow> True | _ \<Rightarrow> False)"

definition str_is_string :: "expr \<Rightarrow> nat list option" where
  "str_is_string e = (case e of Str s \<Rightarrow> Some s | _ \<Rightarrow> None)"

lemma str_is_concat_iff: "str_is_concat e = Some (e1, e2) \<longleftrightarrow> e = Concat e1 e2"
  by (cases e) (simp_all add: str_is_concat_def)

lemma str_is_unit_iff: "str_is_unit e = Some u \<longleftrightarrow> e = Unit u"
  by (cases e) (simp_all add: str_is_unit_def)

lemma str_is_empty_iff: "str_is_empty e \<longleftrightarrow> e = Empty"
  by (cases e) (simp_all add: str_is_empty_def)

lemma str_is_string_iff: "str_is_string e = Some s \<longleftrightarrow> e = Str s"
  by (cases e) (simp_all add: str_is_string_def)

lemma str_is_concat_Concat: "str_is_concat (Concat e1 e2) = Some (e1, e2)"
  by (simp add: str_is_concat_def)

lemma str_is_concat_None_iff: "str_is_concat e = None \<longleftrightarrow> (\<forall>e1 e2. e \<noteq> Concat e1 e2)"
  by (cases e) (simp_all add: str_is_concat_def)

section \<open>The length of a term\<close>

text \<open>
  \<open>get_length(e, val)\<close> walks the concatenation tree of \<open>e\<close> with a stack; the head of the
  list is the top of the stack. Values are the rationals of the arithmetic solver.
  A term without a registered length gets the axiom \<open>|c| \<ge> 0\<close> and ends the call with
  false; so does a term whose length has no value, or a negative one.
\<close>

function get_length_loop ::
  "'c externals \<Rightarrow> expr list \<Rightarrow> rat \<Rightarrow> 'c theory_seq \<Rightarrow> bool \<times> rat \<times> 'c theory_seq" where
  "get_length_loop X [] val st = (val \<in> \<int>, val, st)"
| "get_length_loop X (c # todo) val st =
     (case str_is_concat c of
        Some (e1, e2) \<Rightarrow> get_length_loop X (e2 # e1 # todo) val st
      | None \<Rightarrow>
          if str_is_unit c \<noteq> None then get_length_loop X todo (val + 1) st
          else if str_is_empty c then get_length_loop X todo val st
          else (case str_is_string c of
                  Some s \<Rightarrow> get_length_loop X todo (val + of_nat (length s)) st
                | None \<Rightarrow>
                    if \<not> has_length st c
                    then (False, val, add_axiom X [mk_literal (Ge (mk_len X c) (Num 0))] st)
                    else (case get_value X (ctx st) (mk_len X c) of
                            Some val1 \<Rightarrow>
                              if \<not> val1 < 0 then get_length_loop X todo (val + val1) st
                              else (False, val, st)
                          | None \<Rightarrow> (False, val, st))))"
  by pat_completeness auto
termination
  by (relation "measure (\<lambda>(X, todo, val, st). 2 * sum_list (map size todo) + length todo)")
     (auto simp add: str_is_concat_iff)

definition get_length :: "'c externals \<Rightarrow> expr \<Rightarrow> 'c theory_seq \<Rightarrow> bool \<times> rat \<times> 'c theory_seq" where
  "get_length X e st = get_length_loop X [e] 0 st"

text \<open>
  The summands, read off the term: the leaves of the concatenation tree, and the length
  each of them contributes, if any.
\<close>

fun concat_leaves :: "expr \<Rightarrow> expr list" where
  "concat_leaves (Concat e1 e2) = concat_leaves e1 @ concat_leaves e2"
| "concat_leaves e = [e]"

definition leaf_length :: "'c externals \<Rightarrow> 'c theory_seq \<Rightarrow> expr \<Rightarrow> rat option" where
  "leaf_length X st c =
     (if str_is_unit c \<noteq> None then Some 1
      else if str_is_empty c then Some 0
      else case str_is_string c of
        Some s \<Rightarrow> Some (of_nat (length s))
      | None \<Rightarrow>
          if has_length st c then
            (case get_value X (ctx st) (mk_len X c) of
               Some v \<Rightarrow> if v < 0 then None else Some v
             | None \<Rightarrow> None)
          else None)"

definition leaf_value :: "'c externals \<Rightarrow> 'c theory_seq \<Rightarrow> expr \<Rightarrow> rat" where
  "leaf_value X st c = (case leaf_length X st c of Some v \<Rightarrow> v | None \<Rightarrow> 0)"

lemma leaf_value_nonneg: "0 \<le> leaf_value X st c"
  by (auto simp add: leaf_value_def leaf_length_def split: option.splits)

lemma sum_leaf_value_nonneg: "0 \<le> sum_list (map (leaf_value X st) cs)"
  by (induction cs) (simp_all add: leaf_value_nonneg)

lemma concat_leaves_no_concat: "str_is_concat c = None \<Longrightarrow> concat_leaves c = [c]"
  by (cases c) (simp_all add: str_is_concat_def)

lemma get_length_loop_sound:
  "get_length_loop X todo val st = (True, val', st') \<Longrightarrow>
     (\<forall>c \<in> set (concat (map concat_leaves todo)). leaf_length X st c \<noteq> None)
     \<and> val' = val + sum_list (map (leaf_value X st) (concat (map concat_leaves todo)))
     \<and> val' \<in> \<int> \<and> st' = st"
proof (induction X todo val st rule: get_length_loop.induct)
  case (1 X val st)
  then show ?case
    by auto
next
  case (2 X c todo val st)
  let ?rest = "concat (map concat_leaves todo)"
  show ?case
  proof (cases "str_is_concat c")
    case (Some p)
    obtain e1 e2 where p: "p = (e1, e2)"
      by (cases p)
    with Some have c: "c = Concat e1 e2"
      by (simp add: str_is_concat_iff)
    from "2.prems" Some p have "get_length_loop X (e2 # e1 # todo) val st = (True, val', st')"
      by simp
    with "2.IH"(5) Some p c show ?thesis
      by (auto simp add: ac_simps)
  next
    case None
    note leaf = concat_leaves_no_concat [OF None]
    have tail: "\<exists>v. leaf_length X st c = Some v
        \<and> (\<forall>c \<in> set ?rest. leaf_length X st c \<noteq> None)
        \<and> val' = (val + v) + sum_list (map (leaf_value X st) ?rest)
        \<and> val' \<in> \<int> \<and> st' = st"
    proof (cases "str_is_unit c \<noteq> None")
      case True
      with "2.prems" None have "get_length_loop X todo (val + 1) st = (True, val', st')"
        by simp
      with "2.IH"(1) None True
      have "(\<forall>c \<in> set ?rest. leaf_length X st c \<noteq> None)
        \<and> val' = (val + 1) + sum_list (map (leaf_value X st) ?rest) \<and> val' \<in> \<int> \<and> st' = st"
        by blast
      moreover from True have "leaf_length X st c = Some 1"
        by (simp add: leaf_length_def)
      ultimately show ?thesis
        by blast
    next
      case nounit: False
      show ?thesis
      proof (cases "str_is_empty c")
        case True
        with "2.prems" None nounit have "get_length_loop X todo val st = (True, val', st')"
          by simp
        with "2.IH"(2) None nounit True
        have "(\<forall>c \<in> set ?rest. leaf_length X st c \<noteq> None)
          \<and> val' = val + sum_list (map (leaf_value X st) ?rest) \<and> val' \<in> \<int> \<and> st' = st"
          by blast
        moreover from nounit True have "leaf_length X st c = Some 0"
          by (simp add: leaf_length_def)
        ultimately show ?thesis
          by auto
      next
        case noempty: False
        show ?thesis
        proof (cases "str_is_string c")
          case (Some s)
          with "2.prems" None nounit noempty
          have "get_length_loop X todo (val + of_nat (length s)) st = (True, val', st')"
            by simp
          with "2.IH"(4) None nounit noempty Some
          have "(\<forall>c \<in> set ?rest. leaf_length X st c \<noteq> None)
            \<and> val' = (val + of_nat (length s)) + sum_list (map (leaf_value X st) ?rest)
            \<and> val' \<in> \<int> \<and> st' = st"
            by blast
          moreover from nounit noempty Some have "leaf_length X st c = Some (of_nat (length s))"
            by (simp add: leaf_length_def)
          ultimately show ?thesis
            by blast
        next
          case nostring: None
          from "2.prems" \<open>str_is_concat c = None\<close> nounit noempty nostring
          have hl: "has_length st c"
            by (auto split: if_splits)
          from "2.prems" \<open>str_is_concat c = None\<close> nounit noempty nostring hl
          obtain v where v: "get_value X (ctx st) (mk_len X c) = Some v"
            by (auto split: option.splits)
          from "2.prems" \<open>str_is_concat c = None\<close> nounit noempty nostring hl v
          have nn: "\<not> v < 0" and r: "get_length_loop X todo (val + v) st = (True, val', st')"
            by (auto split: if_splits)
          from "2.IH"(3) \<open>str_is_concat c = None\<close> nounit noempty nostring hl v nn r
          have "(\<forall>c \<in> set ?rest. leaf_length X st c \<noteq> None)
            \<and> val' = (val + v) + sum_list (map (leaf_value X st) ?rest)
            \<and> val' \<in> \<int> \<and> st' = st"
            by blast
          moreover from nounit noempty nostring hl v nn have "leaf_length X st c = Some v"
            by (simp add: leaf_length_def)
          ultimately show ?thesis
            by blast
        qed
      qed
    qed
    then obtain v where v: "leaf_length X st c = Some v"
      and rest: "\<forall>c \<in> set ?rest. leaf_length X st c \<noteq> None"
      and total: "val' = (val + v) + sum_list (map (leaf_value X st) ?rest)"
      and int: "val' \<in> \<int>" and same: "st' = st"
      by blast
    from v have lv: "leaf_value X st c = v"
      by (simp add: leaf_value_def)
    from v rest total int same lv leaf show ?thesis
      by auto
  qed
qed

lemma leaf_length_nonneg: "leaf_length X st c = Some v \<Longrightarrow> 0 \<le> v"
  by (auto simp add: leaf_length_def split: if_splits option.splits)

text \<open>
  C10: when \<open>get_length(e, val)\<close> returns true, every leaf of the concatenation tree of
  \<open>e\<close> contributed a length (1 for a unit, 0 for the empty sequence, the number of
  characters for a string constant, and for any other term the value the arithmetic
  solver gives its registered length, which is accepted only when it is not negative),
  \<open>val\<close> is the sum of these, and \<open>val\<close> is a non-negative integer. Hence the call
  returns false whenever some leaf has no usable length or the sum is not an integer.
\<close>

theorem get_length_nonneg_int:
  "(\<forall>val st'. get_length X e st = (True, val, st') \<longrightarrow>
       0 \<le> val \<and> val \<in> \<int>
       \<and> (\<forall>c \<in> set (concat_leaves e). \<exists>v. leaf_length X st c = Some v \<and> 0 \<le> v)
       \<and> val = sum_list (map (leaf_value X st) (concat_leaves e)))
   \<and> ((\<exists>c \<in> set (concat_leaves e). leaf_length X st c = None)
        \<or> sum_list (map (leaf_value X st) (concat_leaves e)) \<notin> \<int>
       \<longrightarrow> fst (get_length X e st) = False)"
proof -
  have sound: "0 \<le> val \<and> val \<in> \<int>
       \<and> (\<forall>c \<in> set (concat_leaves e). \<exists>v. leaf_length X st c = Some v \<and> 0 \<le> v)
       \<and> val = sum_list (map (leaf_value X st) (concat_leaves e))"
    if r: "get_length X e st = (True, val, st')" for val st'
  proof -
    from r have "get_length_loop X [e] 0 st = (True, val, st')"
      by (simp add: get_length_def)
    from get_length_loop_sound [OF this]
    have leaves: "\<forall>c \<in> set (concat_leaves e). leaf_length X st c \<noteq> None"
      and total: "val = sum_list (map (leaf_value X st) (concat_leaves e))"
      and int: "val \<in> \<int>"
      by auto
    from leaves have "\<forall>c \<in> set (concat_leaves e). \<exists>v. leaf_length X st c = Some v \<and> 0 \<le> v"
      using leaf_length_nonneg by fastforce
    moreover from total have "0 \<le> val"
      by (simp add: sum_leaf_value_nonneg)
    ultimately show ?thesis
      using total int by blast
  qed
  have "fst (get_length X e st) = False"
    if bad: "(\<exists>c \<in> set (concat_leaves e). leaf_length X st c = None)
        \<or> sum_list (map (leaf_value X st) (concat_leaves e)) \<notin> \<int>"
  proof (rule ccontr)
    assume "fst (get_length X e st) \<noteq> False"
    then obtain val st' where "get_length X e st = (True, val, st')"
      by (cases "get_length X e st") auto
    from sound [OF this] bad show False
      by auto
  qed
  with sound show ?thesis
    by blast
qed

theorem get_length_nonneg_int_witness:
  "get_length toy_externals (Concat (Unit (Char 97)) (Concat Empty (Str [98, 99])))
       (theory_seq_init (toy_ctx0 (\<lambda>l. l_undef) 1) True False)
     = (True, 3, theory_seq_init (toy_ctx0 (\<lambda>l. l_undef) 1) True False)
   \<and> (0 :: rat) \<le> 3 \<and> (3 :: rat) \<in> \<int>
   \<and> fst (get_length toy_externals (Concat (Unit (Char 97)) (Const 0))
       (theory_seq_init (toy_ctx0 (\<lambda>l. l_undef) 1) True False)) = False"
proof -
  let ?st = "theory_seq_init (toy_ctx0 (\<lambda>l. l_undef) 1) True False"
  have r: "get_length toy_externals (Concat (Unit (Char 97)) (Concat Empty (Str [98, 99]))) ?st
      = (True, 3, ?st)"
    by (simp add: get_length_def str_is_concat_def str_is_unit_def str_is_empty_def
        str_is_string_def)
  have bad: "\<exists>c \<in> set (concat_leaves (Concat (Unit (Char 97)) (Const 0))).
      leaf_length toy_externals ?st c = None"
    by (simp add: leaf_length_def str_is_unit_def str_is_empty_def str_is_string_def
        has_length_def theory_seq_init_def)
  from get_length_nonneg_int [of toy_externals "Concat (Unit (Char 97)) (Concat Empty (Str [98, 99]))" ?st]
    get_length_nonneg_int [of toy_externals "Concat (Unit (Char 97)) (Const 0)" ?st] r bad
  show ?thesis
    by blast
qed

section \<open>The solution map\<close>

text \<open>
  The store of \<open>solution_map\<close> and its trail. \<open>find(e, value)\<close> reads the slot of \<open>e\<close>,
  \<open>insert\<close> writes it; both live in the header and are modelled from the specification
  (an array indexed by term id, each slot holding a replacement and a justification, or
  empty).
\<close>

type_synonym rep_map = "expr \<rightharpoonup> (expr \<times> dependency)"

type_synonym trail_item = "map_update \<times> expr \<times> expr \<times> dependency"

definition is_root :: "solution_map \<Rightarrow> expr \<Rightarrow> bool" where
  "is_root sm e = (m_map sm e = None)"

definition add_trail :: "map_update \<Rightarrow> expr \<Rightarrow> expr \<Rightarrow> dependency \<Rightarrow> solution_map \<Rightarrow> solution_map" where
  "add_trail op l r d sm = sm\<lparr>m_updates := m_updates sm @ [(op, l, r, d)]\<rparr>"

definition insert_slot :: "expr \<Rightarrow> expr \<Rightarrow> dependency \<Rightarrow> solution_map \<Rightarrow> solution_map" where
  "insert_slot v e d sm = sm\<lparr>m_map := (m_map sm)(v \<mapsto> (e, d))\<rparr>"

definition update :: "expr \<Rightarrow> expr \<Rightarrow> dependency \<Rightarrow> solution_map \<Rightarrow> solution_map" where
  "update e r d sm =
     (if e = r then sm
      else
        let sm1 = sm\<lparr>m_cache := Map.empty\<rparr>;
            sm2 = (case m_map sm1 e of
                     Some (r0, d0) \<Rightarrow> add_trail DEL e r0 d0 sm1
                   | None \<Rightarrow> sm1)
        in add_trail INS e r d (insert_slot e r d sm2))"

text \<open>
  \<open>find(e, d)\<close> follows the chain to its end, joining the justifications. The loop has
  no bound of its own: on a cyclic map it does not return. The model counts the steps
  it may take; \<open>None\<close> is the loop still running when the count is used up.
\<close>

fun find_fuel :: "nat \<Rightarrow> rep_map \<Rightarrow> expr \<Rightarrow> dependency \<Rightarrow> (expr \<times> dependency) option" where
  "find_fuel 0 m e d = None"
| "find_fuel (Suc n) m e d =
     (case m e of
        None \<Rightarrow> Some (e, d)
      | Some (r, d') \<Rightarrow> find_fuel n m r (mk_join d d'))"

definition push_scope :: "solution_map \<Rightarrow> solution_map" where
  "push_scope sm = sm\<lparr>m_limit := m_limit sm @ [length (m_updates sm)]\<rparr>"

text \<open>
  Undoing one trail item, as the loop of \<open>pop_scope\<close> does: an insertion empties the
  slot, a deletion writes the recorded value back.
\<close>

fun undo_item :: "trail_item \<Rightarrow> rep_map \<Rightarrow> rep_map" where
  "undo_item (INS, l, r, d) m = m(l := None)"
| "undo_item (DEL, l, r, d) m = m(l \<mapsto> (r, d))"

text \<open>
  \<open>pop_scope(num_scopes)\<close>. Popping more scopes than were pushed indexes the vector of
  stamps out of range, which is the error. The stamp never exceeds the length of the
  trail, so resizing the trail to it truncates.
\<close>

definition pop_scope :: "nat \<Rightarrow> solution_map \<Rightarrow> error + solution_map" where
  "pop_scope num_scopes sm =
     (if num_scopes = 0 then Inr sm
      else if num_scopes > length (m_limit sm) then Inl Verify_failed
      else
        let start = m_limit sm ! (length (m_limit sm) - num_scopes) in
        Inr (sm\<lparr>m_cache := Map.empty,
                 m_map := fold undo_item (rev (drop start (m_updates sm))) (m_map sm),
                 m_updates := take start (m_updates sm),
                 m_limit := take (length (m_limit sm) - num_scopes) (m_limit sm)\<rparr>))"

text \<open>
  The invariants. \<open>succ_rel m\<close> relates the replacement of a term to the term; a chain of
  \<open>find\<close> is a descending chain of it. \<open>reaches m r e\<close>: the chain that starts at \<open>r\<close>
  passes through \<open>e\<close>. A property of the store is kept through pops when it holds of
  every store the trail can restore; \<open>history P\<close> says so, together with the stamps
  being ascending positions of the trail.
\<close>

definition succ_rel :: "rep_map \<Rightarrow> (expr \<times> expr) set" where
  "succ_rel m = {(r, l). \<exists>d. m l = Some (r, d)}"

definition reaches :: "rep_map \<Rightarrow> expr \<Rightarrow> expr \<Rightarrow> bool" where
  "reaches m r e = ((e, r) \<in> (succ_rel m)\<^sup>*)"

definition lhs_neq_rhs :: "rep_map \<Rightarrow> bool" where
  "lhs_neq_rhs m = (\<forall>l r d. m l = Some (r, d) \<longrightarrow> l \<noteq> r)"

definition chains_end :: "rep_map \<Rightarrow> bool" where
  "chains_end m = (\<forall>e. \<exists>n res. find_fuel n m e [] = Some res)"

definition undo_to :: "nat \<Rightarrow> solution_map \<Rightarrow> rep_map" where
  "undo_to k sm = fold undo_item (rev (drop k (m_updates sm))) (m_map sm)"

definition history :: "(rep_map \<Rightarrow> bool) \<Rightarrow> solution_map \<Rightarrow> bool" where
  "history P sm =
     ((\<forall>k \<le> length (m_updates sm). P (undo_to k sm))
      \<and> sorted (m_limit sm) \<and> (\<forall>s \<in> set (m_limit sm). s \<le> length (m_updates sm)))"

lemma undo_to_length: "undo_to (length (m_updates sm)) sm = m_map sm"
  by (simp add: undo_to_def)

lemma history_current: "history P sm \<Longrightarrow> P (m_map sm)"
  using undo_to_length [of sm] by (auto simp add: history_def)

lemma undo_to_push_scope: "undo_to k (push_scope sm) = undo_to k sm"
  by (simp add: undo_to_def push_scope_def)

lemma history_push_scope: "history P sm \<Longrightarrow> history P (push_scope sm)"
  unfolding history_def undo_to_push_scope
  by (auto simp add: push_scope_def sorted_append)

lemma undo_to_pop_scope:
  assumes "pop_scope n sm = Inr sm'" and "k \<le> length (m_updates sm')"
  shows "undo_to k sm' = undo_to k sm"
proof (cases "n = 0")
  case True
  with assms show ?thesis
    by (simp add: pop_scope_def)
next
  case False
  let ?start = "m_limit sm ! (length (m_limit sm) - n)"
  from assms(1) False have sm': "m_updates sm' = take ?start (m_updates sm)"
    "m_map sm' = fold undo_item (rev (drop ?start (m_updates sm))) (m_map sm)"
    by (auto simp add: pop_scope_def Let_def split: if_splits)
  from assms(2) sm' have k: "k \<le> ?start" "k \<le> length (m_updates sm)"
    by simp_all
  have "drop k (m_updates sm) = drop k (take ?start (m_updates sm)) @ drop ?start (m_updates sm)"
    using k by (metis append_take_drop_id drop_append diff_is_0_eq drop_0 length_take min.absorb2
        nat_le_linear take_all)
  then show ?thesis
    by (simp add: undo_to_def sm')
qed

lemma history_pop_scope:
  assumes "history P sm" and "pop_scope n sm = Inr sm'"
  shows "history P sm'"
proof (cases "n = 0")
  case True
  with assms show ?thesis
    by (simp add: pop_scope_def)
next
  case False
  let ?i = "length (m_limit sm) - n"
  let ?start = "m_limit sm ! ?i"
  from assms(2) False have n: "n \<le> length (m_limit sm)"
    and sm': "m_updates sm' = take ?start (m_updates sm)" "m_limit sm' = take ?i (m_limit sm)"
    by (auto simp add: pop_scope_def Let_def split: if_splits)
  from n False have i: "?i < length (m_limit sm)"
    by simp
  from assms(1) have sorted: "sorted (m_limit sm)"
    and bound: "\<forall>s \<in> set (m_limit sm). s \<le> length (m_updates sm)"
    and P: "\<forall>k \<le> length (m_updates sm). P (undo_to k sm)"
    by (simp_all add: history_def)
  from bound i have start: "?start \<le> length (m_updates sm)"
    by simp
  have "P (undo_to k sm')" if "k \<le> length (m_updates sm')" for k
  proof -
    from that sm' start have "k \<le> length (m_updates sm)"
      by simp
    with P undo_to_pop_scope [OF assms(2) that] show ?thesis
      by simp
  qed
  moreover have "sorted (m_limit sm')"
    using sorted sm' by (simp add: sorted_wrt_take)
  moreover have "\<forall>s \<in> set (m_limit sm'). s \<le> length (m_updates sm')"
  proof
    fix s assume "s \<in> set (m_limit sm')"
    then obtain j where j: "j < ?i" "s = m_limit sm ! j"
      using sm' i by (auto simp add: in_set_conv_nth)
    with sorted i have "s \<le> ?start"
      by (simp add: sorted_nth_mono)
    with sm' start show "s \<le> length (m_updates sm')"
      by simp
  qed
  ultimately show ?thesis
    by (simp add: history_def)
qed

lemma update_same: "update e e d sm = sm"
  by (simp add: update_def)

lemma update_fields:
  assumes "e \<noteq> r"
  shows "m_map (update e r d sm) = (m_map sm)(e \<mapsto> (r, d))"
    and "m_limit (update e r d sm) = m_limit sm"
    and "m_updates (update e r d sm) =
           m_updates sm @ (case m_map sm e of Some (r0, d0) \<Rightarrow> [(DEL, e, r0, d0)] | None \<Rightarrow> [])
             @ [(INS, e, r, d)]"
  using assms
  by (auto simp add: update_def Let_def add_trail_def insert_slot_def split: option.splits)

lemma history_update:
  assumes h: "history P sm"
    and new: "e \<noteq> r \<Longrightarrow> P ((m_map sm)(e \<mapsto> (r, d)))"
    and removal: "\<And>m x. P m \<Longrightarrow> P (m(x := None))"
  shows "history P (update e r d sm)"
proof (cases "e = r")
  case True
  with h show ?thesis
    by (simp add: update_same)
next
  case False
  note f = update_fields [OF False, of d sm]
  note new = new [OF False]
  let ?items = "(case m_map sm e of Some (r0, d0) \<Rightarrow> [(DEL, e, r0, d0)] | None \<Rightarrow> []) @ [(INS, e, r, d)]"
  let ?n = "length (m_updates sm)"
  from h have P: "\<forall>k \<le> ?n. P (undo_to k sm)"
    and sorted: "sorted (m_limit sm)" and bound: "\<forall>s \<in> set (m_limit sm). s \<le> ?n"
    by (simp_all add: history_def)
  have restore: "fold undo_item (rev ?items) ((m_map sm)(e \<mapsto> (r, d))) = m_map sm"
    by (auto split: option.splits)
  have old: "undo_to k (update e r d sm) = undo_to k sm" if "k \<le> ?n" for k
    using that restore by (simp add: undo_to_def f)
  have "P (undo_to k (update e r d sm))" if k: "k \<le> length (m_updates (update e r d sm))" for k
  proof (cases "k \<le> ?n")
    case True
    with P old show ?thesis
      by simp
  next
    case above: False
    show ?thesis
    proof (cases "m_map sm e")
      case None
      with k above have "k = ?n + 1"
        by (simp add: f)
      with None new show ?thesis
        by (simp add: undo_to_def f)
    next
      case (Some p)
      obtain r0 d0 where p: "p = (r0, d0)"
        by (cases p)
      from k above Some p have "k = ?n + 1 \<or> k = ?n + 2"
        by (auto simp add: f)
      then show ?thesis
      proof
        assume "k = ?n + 1"
        with Some p have "undo_to k (update e r d sm) = ((m_map sm)(e \<mapsto> (r, d)))(e := None)"
          by (simp add: undo_to_def f)
        moreover from removal [OF new, of e] have "P (((m_map sm)(e \<mapsto> (r, d)))(e := None))" .
        ultimately show ?thesis
          by simp
      next
        assume "k = ?n + 2"
        with Some p new show ?thesis
          by (simp add: undo_to_def f)
      qed
    qed
  qed
  moreover have "\<forall>s \<in> set (m_limit (update e r d sm)). s \<le> length (m_updates (update e r d sm))"
    using bound by (auto simp add: f)
  ultimately show ?thesis
    using sorted by (simp add: history_def f)
qed

lemma succ_rel_remove: "succ_rel (m(x := None)) \<subseteq> succ_rel m"
  by (auto simp add: succ_rel_def split: if_splits)

lemma succ_rel_update: "succ_rel (m(e \<mapsto> (r, d))) \<subseteq> insert (r, e) (succ_rel m)"
  by (auto simp add: succ_rel_def split: if_splits)

lemma wf_find_fuel:
  assumes "wf (succ_rel m)"
  shows "\<exists>n res. find_fuel n m e d = Some res"
  using assms
proof (induction e arbitrary: d rule: wf_induct_rule)
  case (less e)
  show ?case
  proof (cases "m e")
    case None
    then have "find_fuel (Suc 0) m e d = Some (e, d)"
      by simp
    then show ?thesis
      by blast
  next
    case (Some p)
    obtain r d' where p: "p = (r, d')"
      by (cases p)
    with Some have "(r, e) \<in> succ_rel m"
      by (auto simp add: succ_rel_def)
    from less.IH [OF this, of "mk_join d d'"]
    obtain n res where "find_fuel n m r (mk_join d d') = Some res"
      by blast
    with Some p have "find_fuel (Suc n) m e d = Some res"
      by simp
    then show ?thesis
      by blast
  qed
qed

lemma find_fuel_down_chain:
  assumes "\<forall>i. (f (Suc i), f i) \<in> succ_rel m"
  shows "find_fuel n m (f i) d = None"
proof (induction n arbitrary: i d)
  case 0
  show ?case
    by simp
next
  case (Suc n)
  from assms obtain d' where "m (f i) = Some (f (Suc i), d')"
    by (auto simp add: succ_rel_def)
  with Suc.IH [of "Suc i"] show ?case
    by simp
qed

lemma chains_end_iff_wf: "chains_end m \<longleftrightarrow> wf (succ_rel m)"
proof
  assume c: "chains_end m"
  show "wf (succ_rel m)"
  proof (rule ccontr)
    assume "\<not> wf (succ_rel m)"
    then obtain f where "\<forall>i. (f (Suc i), f i) \<in> succ_rel m"
      by (auto simp add: wf_iff_no_infinite_down_chain)
    then have none: "find_fuel n m (f 0) [] = None" for n
      by (rule find_fuel_down_chain)
    from c obtain n res where "find_fuel n m (f 0) [] = Some res"
      unfolding chains_end_def by blast
    with none show False
      by simp
  qed
next
  assume "wf (succ_rel m)"
  then show "chains_end m"
    unfolding chains_end_def by (blast dest: wf_find_fuel)
qed

lemma chains_end_remove: "chains_end m \<Longrightarrow> chains_end (m(x := None))"
  unfolding chains_end_iff_wf by (rule wf_subset [OF _ succ_rel_remove])

lemma chains_end_update:
  assumes "chains_end m" and "\<not> reaches m r e"
  shows "chains_end (m(e \<mapsto> (r, d)))"
proof -
  from assms have "wf (insert (r, e) (succ_rel m))"
    by (simp add: chains_end_iff_wf reaches_def)
  then show ?thesis
    unfolding chains_end_iff_wf by (rule wf_subset [OF _ succ_rel_update])
qed

lemma lhs_neq_rhs_remove: "lhs_neq_rhs m \<Longrightarrow> lhs_neq_rhs (m(x := None))"
  by (auto simp add: lhs_neq_rhs_def split: if_splits)

lemma lhs_neq_rhs_update: "lhs_neq_rhs m \<Longrightarrow> e \<noteq> r \<Longrightarrow> lhs_neq_rhs (m(e \<mapsto> (r, d)))"
  by (auto simp add: lhs_neq_rhs_def split: if_splits)

lemma history_empty:
  assumes "P Map.empty"
  shows "history P empty_solution_map"
  using assms by (simp add: history_def undo_to_def empty_solution_map_def)

text \<open>
  C8, as stated, fails for the chains: \<open>update\<close> writes the slot without looking at the
  chain of the new right-hand side. From the empty map, \<open>update(x, y)\<close> followed by
  \<open>update(y, x)\<close> leaves \<open>x \<mapsto> y\<close> and \<open>y \<mapsto> x\<close>, and \<open>find\<close> on \<open>x\<close> does not return
  however many steps it is given (while every entry still has \<open>lhs \<noteq> rhs\<close>).
\<close>

theorem update_closes_cycle:
  "chains_end (m_map empty_solution_map)
   \<and> \<not> chains_end (m_map (update (Const 1) (Const 0) []
                            (update (Const 0) (Const 1) [] empty_solution_map)))
   \<and> lhs_neq_rhs (m_map (update (Const 1) (Const 0) []
                            (update (Const 0) (Const 1) [] empty_solution_map)))"
proof -
  let ?m = "m_map (update (Const 1) (Const 0) [] (update (Const 0) (Const 1) [] empty_solution_map))"
  have m: "?m = [Const 0 \<mapsto> (Const 1, []), Const 1 \<mapsto> (Const 0, [])]"
    by (simp add: update_fields empty_solution_map_def)
  have loop: "find_fuel n ?m (Const 0) d = None \<and> find_fuel n ?m (Const 1) d = None" for n d
    unfolding m by (induction n arbitrary: d) simp_all
  have "\<not> chains_end ?m"
  proof
    assume "chains_end ?m"
    then obtain n res where "find_fuel n ?m (Const 0) [] = Some res"
      unfolding chains_end_def by blast
    with loop show False
      by simp
  qed
  moreover have "chains_end (m_map empty_solution_map)"
    by (simp add: chains_end_iff_wf succ_rel_def empty_solution_map_def)
  moreover have "lhs_neq_rhs ?m"
    unfolding m by (simp add: lhs_neq_rhs_def)
  ultimately show ?thesis
    by blast
qed

text \<open>
  C8, amended. After every operation on the solution map (\<open>update\<close>, \<open>push_scope\<close>,
  \<open>pop_scope\<close>, from the empty map), every stored entry satisfies \<open>lhs \<noteq> rhs\<close> and a
  term has at most one entry. Every chain of \<open>find\<close> ends as long as each \<open>update(e, r, d)\<close>
  is made with \<open>e\<close> not on the chain that starts at \<open>r\<close>, which is for the caller to
  ensure: under that proviso \<open>update\<close> keeps all chains finite, and pushes and pops
  always do.
\<close>

theorem solution_map_invariants:
  "history lhs_neq_rhs empty_solution_map \<and> history chains_end empty_solution_map
   \<and> (history lhs_neq_rhs sm \<longrightarrow>
        history lhs_neq_rhs (update e r d sm)
        \<and> history lhs_neq_rhs (push_scope sm)
        \<and> (\<forall>n sm'. pop_scope n sm = Inr sm' \<longrightarrow> history lhs_neq_rhs sm')
        \<and> (\<forall>l r' d'. m_map sm l = Some (r', d') \<longrightarrow> l \<noteq> r'))
   \<and> (\<forall>l p q. m_map sm l = Some p \<and> m_map sm l = Some q \<longrightarrow> p = q)
   \<and> (history chains_end sm \<longrightarrow>
        (\<not> reaches (m_map sm) r e \<longrightarrow> history chains_end (update e r d sm))
        \<and> history chains_end (push_scope sm)
        \<and> (\<forall>n sm'. pop_scope n sm = Inr sm' \<longrightarrow> history chains_end sm')
        \<and> (\<forall>x. \<exists>n res. find_fuel n (m_map sm) x [] = Some res))"
proof (intro conjI impI allI)
  show "history lhs_neq_rhs empty_solution_map"
    by (rule history_empty) (simp add: lhs_neq_rhs_def)
  show "history chains_end empty_solution_map"
    by (rule history_empty) (simp add: chains_end_iff_wf succ_rel_def)
next
  assume h: "history lhs_neq_rhs sm"
  show "history lhs_neq_rhs (update e r d sm)"
    using h
  proof (rule history_update)
    show "lhs_neq_rhs ((m_map sm)(e \<mapsto> (r, d)))" if "e \<noteq> r"
      using history_current [OF h] that by (rule lhs_neq_rhs_update)
  qed (rule lhs_neq_rhs_remove)
  show "history lhs_neq_rhs (push_scope sm)"
    using h by (rule history_push_scope)
  show "history lhs_neq_rhs sm'" if "pop_scope n sm = Inr sm'" for n sm'
    using h that by (rule history_pop_scope)
  show "l \<noteq> r'" if "m_map sm l = Some (r', d')" for l r' d'
    using history_current [OF h] that by (auto simp add: lhs_neq_rhs_def)
next
  fix l p q
  assume "m_map sm l = Some p \<and> m_map sm l = Some q"
  then show "p = q"
    by auto
next
  assume h: "history chains_end sm"
  show "history chains_end (update e r d sm)" if "\<not> reaches (m_map sm) r e"
    using h
  proof (rule history_update)
    show "chains_end ((m_map sm)(e \<mapsto> (r, d)))"
      using history_current [OF h] that by (rule chains_end_update)
  qed (rule chains_end_remove)
  show "history chains_end (push_scope sm)"
    using h by (rule history_push_scope)
  show "history chains_end sm'" if "pop_scope n sm = Inr sm'" for n sm'
    using h that by (rule history_pop_scope)
  show "\<exists>n res. find_fuel n (m_map sm) x [] = Some res" for x
    using history_current [OF h] by (simp add: chains_end_def)
qed

theorem solution_map_invariants_witness:
  "history chains_end (update (Const 0) (Concat (Const 1) (Const 2)) [] empty_solution_map)
   \<and> history lhs_neq_rhs (update (Const 0) (Concat (Const 1) (Const 2)) [] empty_solution_map)
   \<and> find_fuel 2 (m_map (update (Const 0) (Concat (Const 1) (Const 2)) [] empty_solution_map))
        (Const 0) [] = Some (Concat (Const 1) (Const 2), [])"
proof -
  have g: "\<not> reaches (m_map empty_solution_map) (Concat (Const 1) (Const 2)) (Const 0)"
    by (simp add: reaches_def succ_rel_def empty_solution_map_def)
  from solution_map_invariants [of empty_solution_map "Const 0" "Concat (Const 1) (Const 2)" "[]"] g
  have "history chains_end (update (Const 0) (Concat (Const 1) (Const 2)) [] empty_solution_map)"
    and "history lhs_neq_rhs (update (Const 0) (Concat (Const 1) (Const 2)) [] empty_solution_map)"
    by blast+
  moreover have "find_fuel 2 (m_map (update (Const 0) (Concat (Const 1) (Const 2)) [] empty_solution_map))
        (Const 0) [] = Some (Concat (Const 1) (Const 2), [])"
    by (simp add: update_fields empty_solution_map_def numeral_2_eq_2 mk_join_def)
  ultimately show ?thesis
    by blast
qed

section \<open>Integer to string\<close>

text \<open>
  \<open>add_elim_string_axiom\<close> turns a string constant into the concatenation of its units,
  records the equality as an axiom and as a solution, and returns the concatenation.
  \<open>mk_concat\<close> builds the concatenation node.
\<close>

definition mk_concat :: "expr \<Rightarrow> expr \<Rightarrow> expr" where
  "mk_concat a b = Concat a b"

definition add_elim_string_axiom ::
  "'c externals \<Rightarrow> expr \<Rightarrow> 'c theory_seq \<Rightarrow> error + expr \<times> 'c theory_seq" where
  "add_elim_string_axiom X n st =
     (case str_is_string n of
        None \<Rightarrow> Inl Verify_failed
      | Some s \<Rightarrow>
          if length s = 0 then Inr (n, st)
          else
            let result = foldr (\<lambda>c acc. mk_concat (Unit (Char c)) acc) (butlast s) (Unit (Char (last s)));
                st1 = add_axiom X [mk_literal (Eq n result)] st
            in Inr (result, st1\<lparr>m_rep := update n result [] (m_rep st1), m_new_solution := True\<rparr>))"

text \<open>
  \<open>solve_itos(n, rs, dep)\<close>, for an equation \<open>itos(n) = rs\<close>. The first loop asks the axiom
  module for the digit literal of every unit not seen before (the module's clauses go
  through \<open>add_axiom\<close>) and propagates it unless it is already true.
\<close>

fun solve_itos_digits ::
  "'c externals \<Rightarrow> dependency \<Rightarrow> expr list \<Rightarrow> 'c theory_seq \<Rightarrow> 'c theory_seq" where
  "solve_itos_digits X dep [] st = st"
| "solve_itos_digits X dep (r # rs) st =
     (case str_is_unit r of
        Some u \<Rightarrow>
          if u \<notin> m_is_digit st then
            (case ax_is_digit X u of (is_digit, clauses) \<Rightarrow>
               let st1 = fold (add_axiom X) clauses (st\<lparr>m_is_digit := insert u (m_is_digit st)\<rparr>) in
               if get_assignment X (ctx st1) is_digit \<noteq> l_true
               then solve_itos_digits X dep rs (propagate_lit X dep [] is_digit st1)
               else solve_itos_digits X dep rs st1)
          else solve_itos_digits X dep rs st
      | None \<Rightarrow> solve_itos_digits X dep rs st)"

text \<open>
  The second loop builds the decimal value of the units, \<open>10 * num + digit\<close> from the
  left; \<open>None\<close> is the early \<open>return false\<close> on a term that is not a unit.
\<close>

fun solve_itos_num :: "expr list \<Rightarrow> expr option \<Rightarrow> expr option option" where
  "solve_itos_num [] num = Some num"
| "solve_itos_num (r # rs) num =
     (case str_is_unit r of
        None \<Rightarrow> None
      | Some u \<Rightarrow>
          solve_itos_num rs
            (Some (case num of
                     None \<Rightarrow> Sk_digit2int u
                   | Some k \<Rightarrow> Add (Mul (Num 10) k) (Sk_digit2int u))))"

definition solve_itos ::
  "'c externals \<Rightarrow> expr \<Rightarrow> expr list \<Rightarrow> dependency \<Rightarrow> 'c theory_seq \<Rightarrow> error + bool \<times> 'c theory_seq" where
  "solve_itos X n rs dep st =
     (if rs = [] then Inr (True, propagate_lit X dep [] (mk_literal (Le n (Num (- 1)))) st)
      else
        let st1 = solve_itos_digits X dep rs st in
        case solve_itos_num rs None of
          None \<Rightarrow> Inr (False, st1)
        | Some None \<Rightarrow> Inl Verify_failed
        | Some (Some num) \<Rightarrow>
            let st2 = propagate_lit X dep [] (mk_literal (m_rewrite X (Eq n num))) st1 in
            if length rs > 1 then
              (case str_is_unit (rs ! 0) of
                 None \<Rightarrow> Inl Verify_failed
               | Some u \<Rightarrow> Inr (True, propagate_lit X dep [] (mk_literal (Ge (Sk_digit2int u) (Num 1))) st2))
            else Inr (True, st2))"

text \<open>
  What a call had the toy engine assign: the flag it returned, and the literals in order,
  each with the literals that justify it.
\<close>

definition assigned ::
  "error + bool \<times> toy_ctx theory_seq \<Rightarrow> (bool \<times> (literal \<times> literal list) list) option" where
  "assigned res =
     (case res of
        Inl e \<Rightarrow> None
      | Inr (b, st) \<Rightarrow>
          Some (b, concat (map (\<lambda>c. case c of Assign l js \<Rightarrow> [(l, js)] | _ \<Rightarrow> [])
                             (toy_calls (ctx st)))))"

text \<open>The units of a string constant, as the equation solver hands them to \<open>solve_itos\<close>.\<close>

definition str_units :: "nat list \<Rightarrow> expr list" where
  "str_units s = map (\<lambda>c. Unit (Char c)) s"

text \<open>
  The equation \<open>itos(n) = "042"\<close> (the characters have the codes 48, 52 and 50) as the
  justification of the call, in an engine that has assigned nothing else.
\<close>

definition leading_zero_call :: "error + bool \<times> toy_ctx theory_seq" where
  "leading_zero_call =
     solve_itos toy_externals (Const 0) (str_units [48, 52, 50])
       [ALit (Pos (Eq (Itos (Const 0)) (Str [48, 52, 50])))]
       (theory_seq_init (toy_ctx0 (\<lambda>l. l_undef) 1) True False)"

text \<open>
  The reading of the symbols in which \<open>n\<close> has the value \<open>k\<close> and \<open>digit2int\<close> of a
  character is its distance from the character \<open>0\<close>.
\<close>

definition decimal_reading :: "int \<Rightarrow> expr \<Rightarrow> int" where
  "decimal_reading k e =
     (case e of Const x \<Rightarrow> k | Sk_digit2int u \<Rightarrow> (case u of Char c \<Rightarrow> int c - 48 | _ \<Rightarrow> 0) | _ \<Rightarrow> 0)"

lemma assigned_leading_zero_call:
  "assigned leading_zero_call
   = Some (True,
       [(Pos (Sk_is_digit (Char 48)), [Pos (Eq (Itos (Const 0)) (Str [48, 52, 50]))]),
        (Pos (Sk_is_digit (Char 52)), [Pos (Eq (Itos (Const 0)) (Str [48, 52, 50]))]),
        (Pos (Sk_is_digit (Char 50)), [Pos (Eq (Itos (Const 0)) (Str [48, 52, 50]))]),
        (Pos (Eq (Const 0)
               (Add (Mul (Num 10) (Add (Mul (Num 10) (Sk_digit2int (Char 48))) (Sk_digit2int (Char 52))))
                    (Sk_digit2int (Char 50)))),
         [Pos (Eq (Itos (Const 0)) (Str [48, 52, 50]))]),
        (Pos (Ge (Sk_digit2int (Char 48)) (Num 1)), [Pos (Eq (Itos (Const 0)) (Str [48, 52, 50]))])])"
  by (simp add: leading_zero_call_def assigned_def solve_itos_def str_units_def str_is_unit_def toy_externals_def
      theory_seq_init_def toy_ctx0_def propagate_lit_def mk_literal_def linearize_lits_def
      linearize_eqs_def Let_def)

text \<open>
  C2, as stated, fails in its first half. For \<open>itos(n) = "042"\<close> the call returns true
  and has propagated, from the equation, that the leading digit is at least 1. With
  \<open>n = 42\<close> (which satisfies \<open>n \<ge> 0\<close>) the other four propagated literals are true and
  this one is false: \<open>n = 42\<close> is not a model of what the solver has asserted.
\<close>

theorem itos_042_rejects_42:
  "map_option fst (assigned leading_zero_call) = Some True
   \<and> map (\<lambda>(l, js). (l, lit_holds (decimal_reading 42) (\<lambda>e. True) l)) (snd (the (assigned leading_zero_call)))
     = [(Pos (Sk_is_digit (Char 48)), True),
        (Pos (Sk_is_digit (Char 52)), True),
        (Pos (Sk_is_digit (Char 50)), True),
        (Pos (Eq (Const 0)
               (Add (Mul (Num 10) (Add (Mul (Num 10) (Sk_digit2int (Char 48))) (Sk_digit2int (Char 52))))
                    (Sk_digit2int (Char 50)))), True),
        (Pos (Ge (Sk_digit2int (Char 48)) (Num 1)), False)]
   \<and> lit_holds (decimal_reading 42) (\<lambda>e. True) (Pos (Ge (Const 0) (Num 0)))"
  unfolding assigned_leading_zero_call by (simp add: decimal_reading_def)

text \<open>
  C2, amended. For the input \<open>itos(n) = "042"\<close>, in an engine that has assigned none
  of them yet, \<open>solve_itos\<close> returns true and has the engine assign five literals,
  each justified by the equation: the three units are
  digits, \<open>n = 10 * (10 * digit2int('0') + digit2int('4')) + digit2int('2')\<close>, and
  \<open>digit2int('0') \<ge> 1\<close>. In every reading of the symbols in which \<open>digit2int('0')\<close> is 0,
  whatever the value of \<open>n\<close>, the last of them is false: the literals the solver has
  propagated have no model, with \<open>n \<ge> 0\<close> as with \<open>n < 0\<close>, and none with \<open>n = 42\<close>.
\<close>

theorem itos_042_leading_zero:
  "assigned leading_zero_call
   = Some (True,
       map (\<lambda>l. (l, [Pos (Eq (Itos (Const 0)) (Str [48, 52, 50]))]))
         [Pos (Sk_is_digit (Char 48)), Pos (Sk_is_digit (Char 52)), Pos (Sk_is_digit (Char 50)),
          Pos (Eq (Const 0)
                 (Add (Mul (Num 10) (Add (Mul (Num 10) (Sk_digit2int (Char 48))) (Sk_digit2int (Char 52))))
                      (Sk_digit2int (Char 50)))),
          Pos (Ge (Sk_digit2int (Char 48)) (Num 1))])
   \<and> (v (Sk_digit2int (Char 48)) = 0 \<longrightarrow>
        \<not> lit_holds v b (fst (last (snd (the (assigned leading_zero_call)))))
        \<and> \<not> list_all (\<lambda>(l, js). lit_holds v b l) (snd (the (assigned leading_zero_call))))"
  unfolding assigned_leading_zero_call by simp

theorem itos_042_leading_zero_witness:
  "decimal_reading 42 (Sk_digit2int (Char 48)) = 0
   \<and> decimal_reading 42 (Const 0) = 42
   \<and> \<not> list_all (\<lambda>(l, js). lit_holds (decimal_reading 42) (\<lambda>e. True) l) (snd (the (assigned leading_zero_call)))"
  using itos_042_leading_zero [of "decimal_reading 42" "\<lambda>e. True"]
  by (simp add: decimal_reading_def)

lemma concat_leaves_foldr:
  "concat_leaves (foldr (\<lambda>c acc. mk_concat (Unit (Char c)) acc) xs base)
     = str_units xs @ concat_leaves base"
  by (induction xs) (simp_all add: str_units_def mk_concat_def)

lemma add_elim_string_axiom_units:
  assumes "s \<noteq> []"
  shows "\<exists>r st'. add_elim_string_axiom X (Str s) st = Inr (r, st') \<and> concat_leaves r = str_units s"
proof -
  have "map (\<lambda>c. Unit (Char c)) (butlast s @ [last s])
      = map (\<lambda>c. Unit (Char c)) (butlast s) @ [Unit (Char (last s))]"
    by simp
  with append_butlast_last_id [OF assms]
  have "str_units (butlast s) @ [Unit (Char (last s))] = str_units s"
    by (simp add: str_units_def)
  then show ?thesis
    using assms
    by (simp add: add_elim_string_axiom_def str_is_string_def Let_def concat_leaves_foldr)
qed

section \<open>Canonisation\<close>


definition add_cache :: "expr \<Rightarrow> expr \<Rightarrow> dependency \<Rightarrow> 'c theory_seq \<Rightarrow> 'c theory_seq" where
  "add_cache e0 r d st = st\<lparr>m_rep := (m_rep st)\<lparr>m_cache := (m_cache (m_rep st))(e0 \<mapsto> (r, d))\<rparr>\<rparr>"













text \<open>The state with another cache and another stack.\<close>

definition with_cache :: "rep_map \<Rightarrow> expr list \<Rightarrow> 'c theory_seq \<Rightarrow> 'c theory_seq" where
  "with_cache C T st = st\<lparr>m_rep := (m_rep st)\<lparr>m_cache := C\<rparr>, m_expand_todo := T\<rparr>"




lemma with_cache_simps [simp]:
  "m_cache (m_rep (with_cache C T st)) = C"
  "m_expand_todo (with_cache C T st) = T"
  "m_map (m_rep (with_cache C T st)) = m_map (m_rep st)"
  "ctx (with_cache C T st) = ctx st"
  "with_cache C' T' (with_cache C T st) = with_cache C' T' st"
  "(with_cache C T st)\<lparr>m_expand_todo := T'\<rparr> = with_cache C T' st"
  "add_cache e r d (with_cache C T st) = with_cache (C(e \<mapsto> (r, d))) T st"
  by (simp_all add: with_cache_def add_cache_def)

































end
